theory Spec2Isabelle
  imports Complex_Main
begin

section \<open>Values, records and failures\<close>

text \<open>
  A record of the remote API is an untyped key/value map decoded from JSON. The scalar
  JSON values are modelled; a field holding a nested array or object is outside the model.
  Characters are code points below 256.
\<close>

datatype pyval = PNone | PBool bool | PInt int | PFloat rat | PStr string

type_synonym pydict = "string \<rightharpoonup> pyval"

datatype py_error =
    KeyError string
  | TypeError
  | AttributeError
  | ValueError
  | OverflowError
  | IndexError
  | MultipleResultsFoundException
  | RequestError string

text \<open>How a call ends: it returns, or it raises.\<close>

datatype outcome = Returned | Raised py_error

text \<open>Python's truth value of an object.\<close>

fun truthy :: "pyval \<Rightarrow> bool" where
  "truthy PNone = False"
| "truthy (PBool b) = b"
| "truthy (PInt i) = (i \<noteq> 0)"
| "truthy (PFloat r) = (r \<noteq> 0)"
| "truthy (PStr s) = (s \<noteq> [])"

text \<open>
  \<open>str.strip()\<close>: the characters that \<open>str.isspace\<close> accepts below code point 256 are
  removed from both ends.
\<close>

definition isspace :: "char \<Rightarrow> bool" where
  "isspace c = (of_char c \<in> set [9, 10, 11, 12, 13, 28, 29, 30, 31, 32, 133, 160 :: nat])"

definition strip :: "string \<Rightarrow> string" where
  "strip s = rev (dropWhile isspace (rev (dropWhile isspace s)))"

section \<open>The local store and the persistence session\<close>

text \<open>
  Modelled from the spec: the classes \<open>models.Member\<close> and \<open>models.Invoice\<close> are not part of
  the source given; the columns are the attributes that \<open>nexudus.py\<close> reads and writes. A
  column holds whatever value was assigned to it, an attribute never assigned reads as
  \<open>None\<close>, and no column carries a uniqueness or a not-null constraint (the code handles
  duplicate rows itself).
\<close>

record member =
  nexudus_user_id :: pyval
  fullname :: pyval
  billing_name :: pyval
  email :: pyval
  routing_number :: pyval
  account_number :: pyval
  process_automatically :: "bool option"

text \<open>
  The attributes \<open>nexudus_user_id\<close> and \<open>nexudus_space_id\<close> of an Invoice are named
  \<open>invoice_user_id\<close> and \<open>invoice_space_id\<close> here, since a field name belongs to one
  record type.
\<close>

record invoice =
  nexudus_invoice_id :: pyval
  invoice_user_id :: pyval
  invoice_space_id :: pyval
  time_created :: int
  amount :: rat
  finalized :: bool
  txn_id :: pyval
  txn_status :: pyval
  txn_statuscode :: pyval

datatype log_level = DEBUG | WARNING | ERROR

text \<open>
  A log message is kept as the parts the code concatenates; \<open>str(x)\<close> of a value or of an
  exception is kept symbolic.
\<close>

datatype msg_part = Lit string | Str pyval | StrErr py_error

datatype log_entry = Log string log_level "msg_part list"

text \<open>
  Modelled from the spec: the session of \<open>db.conn\<close> (SQLAlchemy, with its default
  autoflush) is not part of the source given. \<open>members\<close> and \<open>invoices\<close> are the tables as the
  session's transaction sees them, pending and changed objects included;
  \<open>committed_members\<close> and \<open>committed_invoices\<close> are the tables as last committed, which is
  what remains when the session is dropped. \<open>logged\<close> collects what the loggers were
  given, and \<open>clock\<close> counts the readings of the wall clock.
\<close>

record session =
  members :: "member list"
  invoices :: "invoice list"
  committed_members :: "member list"
  committed_invoices :: "invoice list"
  logged :: "log_entry list"
  clock :: nat

text \<open>The page descriptor that \<open>r.json()\<close> returns; \<open>None\<close> is an absent key.\<close>

record response =
  TotalItems :: "pyval option"
  HasNextPage :: "pyval option"
  Records :: "pydict list option"

text \<open>
  Modelled from the spec: the module \<open>config\<close> is not part of the source given, so its
  constants are parameters, and so is what lies outside the program: the remote API
  (\<open>requests.get(url, params, auth).json()\<close>, a network or parse failure being \<open>Inl\<close>),
  the wall clock (\<open>now n\<close> is the n-th reading of \<open>datetime.datetime.now()\<close>) and the
  conversions to a float and from a string to an int, whose rounding and parsing are not
  modelled.
\<close>

record env =
  PROCESS_AUTOMATICALLY :: bool
  NEXUDUS_API_URL :: string
  NEXUDUS_EMAIL :: string
  NEXUDUS_PASS :: string
  requests_get :: "string \<Rightarrow> pydict \<Rightarrow> string \<times> string \<Rightarrow> py_error + response"
  now :: "nat \<Rightarrow> int"
  float_of_int :: "int \<Rightarrow> py_error + rat"
  float_of_str :: "string \<Rightarrow> py_error + rat"
  int_of_str :: "string \<Rightarrow> py_error + int"

fun py_float :: "env \<Rightarrow> pyval \<Rightarrow> py_error + rat" where
  "py_float env PNone = Inl TypeError"
| "py_float env (PBool b) = Inr (if b then 1 else 0)"
| "py_float env (PInt i) = float_of_int env i"
| "py_float env (PFloat r) = Inr r"
| "py_float env (PStr s) = float_of_str env s"

fun py_int :: "env \<Rightarrow> pyval \<Rightarrow> py_error + int" where
  "py_int env PNone = Inl TypeError"
| "py_int env (PBool b) = Inr (if b then 1 else 0)"
| "py_int env (PInt i) = Inr i"
| "py_int env (PFloat r) = Inr (if 0 \<le> r then \<lfloor>r\<rfloor> else \<lceil>r\<rceil>)"
| "py_int env (PStr s) = int_of_str env s"

text \<open>
  \<open>Query.one_or_none()\<close> on the rows a filter selects: \<open>Inl ()\<close> stands for SQLAlchemy's
  \<open>MultipleResultsFound\<close>, which the callers catch.
\<close>

fun one_or_none :: "'a list \<Rightarrow> unit + 'a option" where
  "one_or_none [] = Inr None"
| "one_or_none [x] = Inr (Some x)"
| "one_or_none (x # y # zs) = Inl ()"

definition commit :: "session \<Rightarrow> session" where
  "commit db_sess =
     db_sess\<lparr>committed_members := members db_sess, committed_invoices := invoices db_sess\<rparr>"

section \<open>Reconciling one Member\<close>

definition nstrip :: "pyval \<Rightarrow> py_error + pyval" where
  "nstrip s =
     (if truthy s
      then (case s of PStr t \<Rightarrow> Inr (PStr (strip t)) | _ \<Rightarrow> Inl AttributeError)
      else Inr PNone)"

text \<open>The condition \<open>nstrip(routing_number) and nstrip(account_number)\<close>, left to right.\<close>

definition ach_populated :: "member \<Rightarrow> py_error + bool" where
  "ach_populated m =
     (case nstrip (routing_number m) of
        Inl e \<Rightarrow> Inl e
      | Inr r \<Rightarrow>
          if truthy r
          then (case nstrip (account_number m) of Inl e \<Rightarrow> Inl e | Inr a \<Rightarrow> Inr (truthy a))
          else Inr False)"

definition new_Member :: member where
  "new_Member =
     \<lparr>nexudus_user_id = PNone, fullname = PNone, billing_name = PNone, email = PNone,
      routing_number = PNone, account_number = PNone, process_automatically = None\<rparr>"

text \<open>
  The object \<open>member_to_add\<close> is written back to the session's view of the table when the
  call ends, by return or by exception: in place when it was the row found, as a new last
  row when it was created and added.
\<close>

definition flush_member :: "bool \<Rightarrow> pyval \<Rightarrow> member \<Rightarrow> session \<Rightarrow> session" where
  "flush_member already_stored rid m db_sess =
     (if already_stored
      then db_sess\<lparr>members := map (\<lambda>x. if nexudus_user_id x = rid then m else x) (members db_sess)\<rparr>
      else db_sess\<lparr>members := members db_sess @ [m]\<rparr>)"

definition multiple_users_warning :: "pyval \<Rightarrow> log_entry" where
  "multiple_users_warning rid =
     Log ''invoicer_db'' WARNING
       [Lit ''Consistency warning: Multiple users in database session with Nexudus ID '',
        Str rid, Lit ''. Removing all copies of this user and re-syncing.'']"

text \<open>
  Lines 311 to 346 of \<open>nexudus.py\<close>, as they act on the object \<open>member_to_add\<close>: the
  assignments from the record in the order of the source, the choice of
  \<open>process_automatically\<close>, and the debug message built from the email. A failure leaves the
  object with the assignments made before it.
\<close>

definition overwrite_member ::
  "env \<Rightarrow> pydict \<Rightarrow> pyval \<Rightarrow> bool \<Rightarrow> member \<Rightarrow> (py_error + log_entry) \<times> member" where
  "overwrite_member env record rid already_stored m0 =
     (let m1 = m0\<lparr>nexudus_user_id := rid\<rparr> in
      case record ''FullName'' of
        None \<Rightarrow> (Inl (KeyError ''FullName''), m1)
      | Some fn \<Rightarrow>
      let m2 = m1\<lparr>fullname := fn\<rparr> in
      (case record ''BillingName'' of
        None \<Rightarrow> (Inl (KeyError ''BillingName''), m2)
      | Some bn \<Rightarrow>
      let m3 = m2\<lparr>billing_name := (if truthy bn then bn else fn)\<rparr> in
      (case record ''Email'' of
        None \<Rightarrow> (Inl (KeyError ''Email''), m3)
      | Some em \<Rightarrow>
      let m4 = m3\<lparr>email := em\<rparr> in
      (case record ''BankBranch'' of
        None \<Rightarrow> (Inl (KeyError ''BankBranch''), m4)
      | Some bb \<Rightarrow>
      let m5 = m4\<lparr>routing_number := bb\<rparr> in
      (case record ''BankAccount'' of
        None \<Rightarrow> (Inl (KeyError ''BankAccount''), m5)
      | Some ba \<Rightarrow>
      let m6 = m5\<lparr>account_number := ba\<rparr> in
      (case ach_populated m6 of
        Inl e \<Rightarrow> (Inl e, m6)
      | Inr populated \<Rightarrow>
      let m7 = (if populated
                then (if \<not> already_stored
                      then m6\<lparr>process_automatically := Some (PROCESS_AUTOMATICALLY env)\<rparr>
                      else m6)
                else m6\<lparr>process_automatically := Some False\<rparr>)
      in
      (case email m7 of
        PStr e \<Rightarrow> (Inr (Log ''flask.app'' DEBUG [Lit (''Syncing '' @ e @ '' ...'')]), m7)
      | _ \<Rightarrow> (Inl TypeError, m7))))))))"

definition add_or_overwrite_member :: "env \<Rightarrow> pydict \<Rightarrow> session \<Rightarrow> outcome \<times> session" where
  "add_or_overwrite_member env record db_sess =
     (case record ''Id'' of
        None \<Rightarrow> (Raised (KeyError ''Id''), db_sess)
      | Some rid \<Rightarrow>
          let (member_to_add, s1) =
                (case one_or_none (filter (\<lambda>m. nexudus_user_id m = rid) (members db_sess)) of
                   Inl _ \<Rightarrow>
                     (None,
                      db_sess\<lparr>members := filter (\<lambda>m. nexudus_user_id m \<noteq> rid) (members db_sess),
                               logged := logged db_sess @ [multiple_users_warning rid]\<rparr>)
                 | Inr found \<Rightarrow> (found, db_sess));
              already_stored = (member_to_add \<noteq> None);
              m0 = (case member_to_add of None \<Rightarrow> new_Member | Some m \<Rightarrow> m)
          in
          (case overwrite_member env record rid already_stored m0 of
             (Inl e, m) \<Rightarrow> (Raised e, flush_member already_stored rid m s1)
           | (Inr msg, m) \<Rightarrow>
               (Returned,
                commit ((flush_member already_stored rid m s1)
                          \<lparr>logged := logged s1 @ [msg]\<rparr>))))"

section \<open>Reconciling one Invoice\<close>

definition multiple_users_warning_invoice :: "pyval \<Rightarrow> log_entry" where
  "multiple_users_warning_invoice cid =
     Log ''invoicer_db'' WARNING
       [Lit ''Consistency warning: Multiple users in database with Nexudus ID '',
        Str cid, Lit ''.'']"

definition multiple_invoices_warning :: "pyval \<Rightarrow> log_entry" where
  "multiple_invoices_warning rid =
     Log ''invoicer_db'' WARNING
       [Lit ''Consistency warning: Multiple invoices in database session with Nexudus ID '',
        Str rid, Lit ''. Removing all copies of this user and re-syncing.'']"

text \<open>
  The first \<open>try\<close> block: \<open>Inr True\<close> when the invoice is to be ignored (the \<open>return\<close>),
  \<open>Inr False\<close> when the function goes on, after the warning in case several Members
  match.
\<close>

definition member_gate :: "pydict \<Rightarrow> session \<Rightarrow> (py_error + bool) \<times> session" where
  "member_gate record db_sess =
     (case record ''CoworkerId'' of
        None \<Rightarrow> (Inl (KeyError ''CoworkerId''), db_sess)
      | Some cid \<Rightarrow>
          (case one_or_none (filter (\<lambda>m. nexudus_user_id m = cid) (members db_sess)) of
             Inl _ \<Rightarrow>
               (Inr False,
                db_sess\<lparr>logged := logged db_sess @ [multiple_users_warning_invoice cid]\<rparr>)
           | Inr None \<Rightarrow> (Inr False, db_sess)
           | Inr (Some corresponding_member) \<Rightarrow>
               (Inr (process_automatically corresponding_member \<noteq> Some True), db_sess)))"

definition new_invoice_message :: "pyval \<Rightarrow> log_entry" where
  "new_invoice_message cid =
     Log ''invoicer_ajax'' DEBUG
       [Lit ''    New invoice found for Nexudus user ID '', Str cid, Lit ''.'']"

definition add_or_overwrite_invoice :: "env \<Rightarrow> pydict \<Rightarrow> session \<Rightarrow> outcome \<times> session" where
  "add_or_overwrite_invoice env record db_sess =
     (case member_gate record db_sess of
        (Inl e, s0) \<Rightarrow> (Raised e, s0)
      | (Inr True, s0) \<Rightarrow> (Returned, s0)
      | (Inr False, s0) \<Rightarrow>
      (case record ''Id'' of
        None \<Rightarrow> (Raised (KeyError ''Id''), s0)
      | Some rid \<Rightarrow>
          let (invoice_to_add, s1) =
                (case one_or_none (filter (\<lambda>i. nexudus_invoice_id i = rid) (invoices s0)) of
                   Inl _ \<Rightarrow>
                     (None,
                      s0\<lparr>invoices := filter (\<lambda>i. nexudus_invoice_id i \<noteq> rid) (invoices s0),
                          logged := logged s0 @ [multiple_invoices_warning rid]\<rparr>)
                 | Inr found \<Rightarrow> (found, s0))
          in
          (case invoice_to_add of
             Some existing \<Rightarrow> (Returned, s1)
           | None \<Rightarrow>
          (case record ''CoworkerId'' of
             None \<Rightarrow> (Raised (KeyError ''CoworkerId''), s1)
           | Some cid \<Rightarrow>
          (case record ''BusinessId'' of
             None \<Rightarrow> (Raised (KeyError ''BusinessId''), s1)
           | Some bid \<Rightarrow>
          let t = now env (clock s1);
              s2 = s1\<lparr>clock := Suc (clock s1)\<rparr>
          in
          (case record ''TotalAmount'' of
             None \<Rightarrow> (Raised (KeyError ''TotalAmount''), s2)
           | Some total_v \<Rightarrow>
          (case py_float env total_v of
             Inl e \<Rightarrow> (Raised e, s2)
           | Inr a \<Rightarrow>
               (Returned,
                commit (s2\<lparr>invoices := invoices s2 @
                              [\<lparr>nexudus_invoice_id = rid, invoice_user_id = cid,
                                invoice_space_id = bid, time_created = t, amount = a,
                                finalized = False, txn_id = PNone,
                                txn_status = PStr ''Not processed'',
                                txn_statuscode = PNone\<rparr>],
                            logged := logged s2 @ [new_invoice_message cid]\<rparr>)))))))))"

section \<open>Fetching pages\<close>

text \<open>
  The generator \<open>get_records\<close>: its local variables, and \<open>pages_requested\<close>, the page
  numbers of the requests it has sent so far (its only effect on the outside).
\<close>

record gen =
  url :: string
  creds :: "string \<times> string"
  params :: pydict
  single :: bool
  has_next_page :: pyval
  current_page :: int
  pages_requested :: "int list"

datatype gen_step = Yield "pydict list" gen | GenRaised py_error gen | StopIteration gen

definition get_records :: "env \<Rightarrow> string \<Rightarrow> pydict \<Rightarrow> bool \<Rightarrow> gen" where
  "get_records env url_part payload single_flag =
     \<lparr>url = NEXUDUS_API_URL env @ url_part,
      creds = (NEXUDUS_EMAIL env, NEXUDUS_PASS env),
      params = payload,
      single = single_flag,
      has_next_page = PBool True,
      current_page = 0,
      pages_requested = []\<rparr>"

text \<open>The check under \<open>if single\<close>: the exception it raises, if any.\<close>

definition single_check :: "env \<Rightarrow> gen \<Rightarrow> response \<Rightarrow> py_error option" where
  "single_check env g res =
     (if single g
      then (case TotalItems res of
              None \<Rightarrow> Some (KeyError ''TotalItems'')
            | Some total_v \<Rightarrow>
                (case py_int env total_v of
                   Inl e \<Rightarrow> Some e
                 | Inr n \<Rightarrow> if n \<noteq> 1 then Some MultipleResultsFoundException else None))
      else None)"

text \<open>Resuming the generator: one turn of its \<open>while\<close> loop, up to the \<open>yield\<close>.\<close>

definition next_records :: "env \<Rightarrow> gen \<Rightarrow> gen_step" where
  "next_records env g =
     (if truthy (has_next_page g)
      then
        let page = current_page g + 1;
            g1 = g\<lparr>current_page := page,
                   params := (params g)(''page'' \<mapsto> PInt page),
                   pages_requested := pages_requested g @ [page]\<rparr>
        in
        (case requests_get env (url g1) (params g1) (creds g1) of
           Inl e \<Rightarrow> GenRaised e g1
         | Inr res \<Rightarrow>
             (case single_check env g1 res of
                Some e \<Rightarrow> GenRaised e g1
              | None \<Rightarrow>
                  (case HasNextPage res of
                     None \<Rightarrow> GenRaised (KeyError ''HasNextPage'') g1
                   | Some h \<Rightarrow>
                       let g2 = g1\<lparr>has_next_page := h\<rparr> in
                       (case Records res of
                          None \<Rightarrow> GenRaised (KeyError ''Records'') g2
                        | Some record_list \<Rightarrow> Yield record_list g2))))
      else StopIteration g)"

text \<open>
  The \<open>for\<close> loop of \<open>process_batch\<close> over the generator. The remote decides how many pages
  there are, so the loop need not end: \<open>None\<close> is a run that never returns.
\<close>

partial_function (option) process_batch_loop ::
  "env \<Rightarrow> (pydict list \<Rightarrow> 's \<Rightarrow> outcome \<times> 's) \<Rightarrow> gen \<Rightarrow> 's \<Rightarrow> (outcome \<times> gen \<times> 's) option"
  where
  "process_batch_loop env cb g s =
     (case next_records env g of
        StopIteration g' \<Rightarrow> Some (Returned, g', s)
      | GenRaised e g' \<Rightarrow> Some (Raised e, g', s)
      | Yield record_list g' \<Rightarrow>
          (case cb record_list s of
             (Returned, s') \<Rightarrow> process_batch_loop env cb g' s'
           | (Raised e, s') \<Rightarrow> Some (Raised e, g', s')))"

declare process_batch_loop.simps [code]

definition process_batch ::
  "env \<Rightarrow> string \<Rightarrow> (pydict list \<Rightarrow> 's \<Rightarrow> outcome \<times> 's) \<Rightarrow> pydict \<Rightarrow> 's
     \<Rightarrow> (outcome \<times> gen \<times> 's) option" where
  "process_batch env url_part cb payload s =
     process_batch_loop env cb (get_records env url_part payload False) s"

section \<open>The sync run\<close>

definition invalid_key_error :: "py_error \<Rightarrow> log_entry" where
  "invalid_key_error e =
     Log ''invoicer_db'' ERROR
       [Lit ''Attempted to access an invalid key for a Nexudus record! Error: '', StrErr e]"

text \<open>
  The inner function \<open>callback\<close> of \<open>sync_table\<close>: the records of one batch in order, a
  \<open>KeyError\<close> of \<open>sync_callback\<close> caught and logged, any other exception ending the loop.
\<close>

fun callback ::
  "(pydict \<Rightarrow> session \<Rightarrow> outcome \<times> session) \<Rightarrow> pydict list \<Rightarrow> session \<Rightarrow> outcome \<times> session"
  where
  "callback sync_callback [] db_sess = (Returned, db_sess)"
| "callback sync_callback (record # records) db_sess =
     (case sync_callback record db_sess of
        (Returned, s) \<Rightarrow> callback sync_callback records s
      | (Raised (KeyError k), s) \<Rightarrow>
          callback sync_callback records
            (s\<lparr>logged := logged s @ [invalid_key_error (KeyError k)]\<rparr>)
      | (Raised e, s) \<Rightarrow> (Raised e, s))"

text \<open>
  \<open>sm()\<close>: a new session sees the tables as they were last committed. The argument \<open>sm\<close>
  of the sync functions is the state in which the previous session left the store.
\<close>

definition new_session :: "session \<Rightarrow> session" where
  "new_session sm = sm\<lparr>members := committed_members sm, invoices := committed_invoices sm\<rparr>"

definition sync_table ::
  "env \<Rightarrow> session \<Rightarrow> pyval \<Rightarrow> (pydict \<Rightarrow> session \<Rightarrow> outcome \<times> session) \<Rightarrow> pydict \<Rightarrow> string
     \<Rightarrow> string \<Rightarrow> (outcome \<times> gen \<times> session) option" where
  "sync_table env sm nexudus_space_id sync_callback payload url_part business_var =
     (let db_sess = new_session sm in
      process_batch env url_part (callback sync_callback)
        (payload(business_var \<mapsto> nexudus_space_id)) db_sess)"

definition sync_member_table :: "env \<Rightarrow> session \<Rightarrow> pyval \<Rightarrow> (outcome \<times> gen \<times> session) option" where
  "sync_member_table env sm nexudus_space_id =
     sync_table env sm nexudus_space_id (add_or_overwrite_member env)
       [''Coworker_Active'' \<mapsto> PStr ''true'', ''size'' \<mapsto> PInt 100]
       ''spaces/coworkers'' ''Coworker_InvoicingBusiness''"

definition sync_invoice_table :: "env \<Rightarrow> session \<Rightarrow> pyval \<Rightarrow> (outcome \<times> gen \<times> session) option" where
  "sync_invoice_table env sm nexudus_space_id =
     sync_table env sm nexudus_space_id (add_or_overwrite_invoice env)
       [''CoworkerInvoice_Paid'' \<mapsto> PStr ''false'', ''size'' \<mapsto> PInt 100]
       ''billing/coworkerinvoices'' ''CoworkerInvoice_Business''"

section \<open>Notions of the specification\<close>

text \<open>
  A bank field is text when it is a string or null; its trimmed value is the string stripped
  of surrounding whitespace (empty for null). The bank data is populated when both trimmed
  values are non-empty.
\<close>

definition is_text :: "pyval \<Rightarrow> bool" where
  "is_text v = (case v of PNone \<Rightarrow> True | PStr t \<Rightarrow> True | _ \<Rightarrow> False)"

definition trimmed :: "pyval \<Rightarrow> string" where
  "trimmed v = (case v of PStr t \<Rightarrow> strip t | _ \<Rightarrow> [])"

definition bank_populated :: "pyval \<Rightarrow> pyval \<Rightarrow> bool" where
  "bank_populated bb ba = (trimmed bb \<noteq> [] \<and> trimmed ba \<noteq> [])"

text \<open>A consumer of \<open>process_batch\<close> that keeps every batch it is given, in order.\<close>

definition collect :: "pydict list \<Rightarrow> pydict list list \<Rightarrow> outcome \<times> pydict list list" where
  "collect record_list batches = (Returned, batches @ [record_list])"

section \<open>Example data\<close>

definition jane_record :: pydict where
  "jane_record =
     [''Id'' \<mapsto> PInt 5, ''FullName'' \<mapsto> PStr ''Jane Doe'', ''BillingName'' \<mapsto> PStr [],
      ''Email'' \<mapsto> PStr ''a@b.com'', ''BankBranch'' \<mapsto> PStr '' 123 '',
      ''BankAccount'' \<mapsto> PStr '' 456 '']"

definition jane_blank_record :: pydict where
  "jane_blank_record =
     [''Id'' \<mapsto> PInt 5, ''FullName'' \<mapsto> PStr ''Jane Doe'', ''BillingName'' \<mapsto> PStr [],
      ''Email'' \<mapsto> PStr ''a@b.com'', ''BankBranch'' \<mapsto> PStr ''   '',
      ''BankAccount'' \<mapsto> PNone]"

definition jane_member :: "bool \<Rightarrow> member" where
  "jane_member p =
     \<lparr>nexudus_user_id = PInt 5, fullname = PStr ''Jane Doe'', billing_name = PStr ''Jane Doe'',
      email = PStr ''a@b.com'', routing_number = PStr '' 123 '',
      account_number = PStr '' 456 '', process_automatically = Some p\<rparr>"

definition invoice_nine_record :: pydict where
  "invoice_nine_record =
     [''Id'' \<mapsto> PInt 9, ''CoworkerId'' \<mapsto> PInt 5, ''BusinessId'' \<mapsto> PInt 1,
      ''TotalAmount'' \<mapsto> PFloat (85 / 2)]"

definition invoice_nine :: "rat \<Rightarrow> invoice" where
  "invoice_nine a =
     \<lparr>nexudus_invoice_id = PInt 9, invoice_user_id = PInt 5, invoice_space_id = PInt 1,
      time_created = 0, amount = a, finalized = False, txn_id = PNone,
      txn_status = PStr ''Not processed'', txn_statuscode = PNone\<rparr>"

definition example_response :: "bool \<Rightarrow> pydict list \<Rightarrow> response" where
  "example_response has_more rs =
     \<lparr>TotalItems = Some (PInt 2), HasNextPage = Some (PBool has_more), Records = Some rs\<rparr>"

text \<open>A remote with two pages of one record each, for either endpoint.\<close>

definition example_remote :: "string \<Rightarrow> pydict \<Rightarrow> string \<times> string \<Rightarrow> py_error + response" where
  "example_remote u p c =
     (if p ''page'' = Some (PInt 1)
      then Inr (example_response True
                  [if u = ''https://spaces.example/api/spaces/coworkers''
                   then jane_record else invoice_nine_record])
      else if p ''page'' = Some (PInt 2)
      then Inr (example_response False
                  [if u = ''https://spaces.example/api/spaces/coworkers''
                   then jane_blank_record else invoice_nine_record])
      else Inl (RequestError ''no such page''))"

definition example_env :: "bool \<Rightarrow> env" where
  "example_env d =
     \<lparr>PROCESS_AUTOMATICALLY = d, NEXUDUS_API_URL = ''https://spaces.example/api/'',
      NEXUDUS_EMAIL = ''user'', NEXUDUS_PASS = ''secret'',
      requests_get = example_remote,
      now = (\<lambda>n. int n),
      float_of_int = (\<lambda>i. Inr (of_int i)),
      float_of_str = (\<lambda>s. Inl ValueError),
      int_of_str = (\<lambda>s. Inl ValueError)\<rparr>"

text \<open>An invoice record whose amount is null, and a Member record without a name.\<close>

definition invoice_bad_record :: pydict where
  "invoice_bad_record =
     [''Id'' \<mapsto> PInt 10, ''CoworkerId'' \<mapsto> PInt 5, ''BusinessId'' \<mapsto> PInt 1,
      ''TotalAmount'' \<mapsto> PNone]"

definition nameless_record :: pydict where
  "nameless_record = [''Id'' \<mapsto> PInt 6]"

text \<open>A remote whose first page holds these two records and whose second page fails.\<close>

definition faulty_remote :: "string \<Rightarrow> pydict \<Rightarrow> string \<times> string \<Rightarrow> py_error + response" where
  "faulty_remote u p c =
     (if p ''page'' = Some (PInt 1)
      then Inr (example_response True [nameless_record, invoice_bad_record])
      else Inl (RequestError ''connection reset''))"

definition faulty_env :: env where
  "faulty_env = (example_env True)\<lparr>requests_get := faulty_remote\<rparr>"

definition store :: "member list \<Rightarrow> invoice list \<Rightarrow> session" where
  "store ms is =
     \<lparr>members = ms, invoices = is, committed_members = ms, committed_invoices = is,
      logged = [], clock = 0\<rparr>"

text \<open>The generator of the faulty remote's invoices, new and after its first page.\<close>

definition faulty_gen :: gen where
  "faulty_gen = get_records faulty_env ''billing/coworkerinvoices'' Map.empty False"

definition faulty_gen_1 :: gen where
  "faulty_gen_1 =
     faulty_gen\<lparr>current_page := 1, params := [''page'' \<mapsto> PInt 1], pages_requested := [1]\<rparr>"

definition faulty_gen_2 :: gen where
  "faulty_gen_2 =
     faulty_gen\<lparr>current_page := 2, params := [''page'' \<mapsto> PInt 2], pages_requested := [1, 2]\<rparr>"

section \<open>Notions used in the proofs\<close>

text \<open>
  What the generator does when it is resumed again and again from state \<open>g\<close>: it yields
  the batches \<open>bs\<close> and is left in state \<open>g'\<close>, where it has ended (\<open>Some Returned\<close>), has
  raised (\<open>Some (Raised e)\<close>), or is not resumed any more (\<open>None\<close>).
\<close>

inductive fetched :: "env \<Rightarrow> gen \<Rightarrow> pydict list list \<Rightarrow> gen \<Rightarrow> outcome option \<Rightarrow> bool"
  for env :: env where
  exhausted: "next_records env g = StopIteration g' \<Longrightarrow> fetched env g [] g' (Some Returned)"
| failed: "next_records env g = GenRaised e g' \<Longrightarrow> fetched env g [] g' (Some (Raised e))"
| abandoned: "fetched env g [] g None"
| yielded: "next_records env g = Yield record_list g1 \<Longrightarrow> fetched env g1 bs g' fin
            \<Longrightarrow> fetched env g (record_list # bs) g' fin"

text \<open>The tables as the session sees them, and as committed.\<close>

definition view :: "session \<Rightarrow> member list \<times> invoice list" where
  "view s = (members s, invoices s)"

definition durable :: "session \<Rightarrow> member list \<times> invoice list" where
  "durable s = (committed_members s, committed_invoices s)"

text \<open>
  What \<open>add_or_overwrite_member\<close> does, as functions of the record and of the Member
  table alone: how the call ends, and the table the session sees afterwards.
  \<open>stored_update\<close> is the change a record makes to a row that the lookup has found.
\<close>

definition member_outcome :: "env \<Rightarrow> pydict \<Rightarrow> outcome" where
  "member_outcome env r =
     (case r ''Id'' of
        None \<Rightarrow> Raised (KeyError ''Id'')
      | Some k \<Rightarrow>
          (case fst (overwrite_member env r k False new_Member) of
             Inl e \<Rightarrow> Raised e
           | Inr msg \<Rightarrow> Returned))"

definition member_view :: "env \<Rightarrow> pydict \<Rightarrow> member list \<Rightarrow> member list" where
  "member_view env r ms =
     (case r ''Id'' of
        None \<Rightarrow> ms
      | Some k \<Rightarrow>
          (case filter (\<lambda>m. nexudus_user_id m = k) ms of
             [m0] \<Rightarrow>
               map (\<lambda>x. if nexudus_user_id x = k
                         then snd (overwrite_member env r k True m0) else x) ms
           | _ \<Rightarrow>
               filter (\<lambda>m. nexudus_user_id m \<noteq> k) ms
                 @ [snd (overwrite_member env r k False new_Member)]))"

definition stored_update :: "env \<Rightarrow> pydict \<Rightarrow> member \<Rightarrow> member" where
  "stored_update env r x =
     (case r ''Id'' of
        None \<Rightarrow> x
      | Some k \<Rightarrow>
          if nexudus_user_id x = k then snd (overwrite_member env r k True x) else x)"

text \<open>
  A function on Member rows keeps or sets a column (on the rows of key \<open>k\<close>) when it leaves
  the column as it is or gives it one fixed value; it is a patch when it keeps the key and
  keeps or sets every other column.
\<close>

definition keeps_or_sets :: "pyval \<Rightarrow> (member \<Rightarrow> 'a) \<Rightarrow> (member \<Rightarrow> member) \<Rightarrow> bool" where
  "keeps_or_sets k sel Q =
     ((\<forall>x. nexudus_user_id x = k \<longrightarrow> sel (Q x) = sel x)
      \<or> (\<exists>c. \<forall>x. nexudus_user_id x = k \<longrightarrow> sel (Q x) = c))"

definition patch_on :: "pyval \<Rightarrow> (member \<Rightarrow> member) \<Rightarrow> bool" where
  "patch_on k Q =
     ((\<forall>x. nexudus_user_id x = k \<longrightarrow> nexudus_user_id (Q x) = k)
      \<and> keeps_or_sets k fullname Q \<and> keeps_or_sets k billing_name Q
      \<and> keeps_or_sets k email Q \<and> keeps_or_sets k routing_number Q
      \<and> keeps_or_sets k account_number Q \<and> keeps_or_sets k process_automatically Q)"

text \<open>
  A Member table is settled for a list of records when each Id among them has one row and
  every row is what the records, applied in order to the stored row, leave unchanged.
\<close>

definition settled_members :: "env \<Rightarrow> pydict list \<Rightarrow> member list \<Rightarrow> bool" where
  "settled_members env rs ms =
     ((\<forall>r\<in>set rs. \<forall>k. r ''Id'' = Some k \<longrightarrow>
          length (filter (\<lambda>m. nexudus_user_id m = k) ms) = 1)
      \<and> (\<forall>x\<in>set ms. fold (stored_update env) rs x = x))"

text \<open>
  What \<open>add_or_overwrite_invoice\<close> does, as functions of the record and of the tables:
  the result of the first \<open>try\<close> block, the Invoice it would add at time \<open>t\<close>, whether it
  adds one (and commits), how the call ends, and the Invoice table afterwards.
\<close>

definition gate_result :: "pydict \<Rightarrow> member list \<Rightarrow> py_error + bool" where
  "gate_result r ms =
     (case r ''CoworkerId'' of
        None \<Rightarrow> Inl (KeyError ''CoworkerId'')
      | Some cid \<Rightarrow>
          (case one_or_none (filter (\<lambda>m. nexudus_user_id m = cid) ms) of
             Inl _ \<Rightarrow> Inr False
           | Inr None \<Rightarrow> Inr False
           | Inr (Some m) \<Rightarrow> Inr (process_automatically m \<noteq> Some True)))"

definition created_invoice :: "env \<Rightarrow> int \<Rightarrow> pydict \<Rightarrow> invoice option" where
  "created_invoice env t r =
     (case r ''Id'' of None \<Rightarrow> None | Some rid \<Rightarrow>
      (case r ''CoworkerId'' of None \<Rightarrow> None | Some cid \<Rightarrow>
      (case r ''BusinessId'' of None \<Rightarrow> None | Some bid \<Rightarrow>
      (case r ''TotalAmount'' of None \<Rightarrow> None | Some total_v \<Rightarrow>
      (case py_float env total_v of
         Inl e \<Rightarrow> None
       | Inr a \<Rightarrow>
           Some \<lparr>nexudus_invoice_id = rid, invoice_user_id = cid, invoice_space_id = bid,
                 time_created = t, amount = a, finalized = False, txn_id = PNone,
                 txn_status = PStr ''Not processed'', txn_statuscode = PNone\<rparr>)))))"

definition creates :: "env \<Rightarrow> pydict \<Rightarrow> member list \<Rightarrow> invoice list \<Rightarrow> bool" where
  "creates env r ms is =
     (gate_result r ms = Inr False
      \<and> (case r ''Id'' of
           None \<Rightarrow> False
         | Some k \<Rightarrow> length (filter (\<lambda>i. nexudus_invoice_id i = k) is) \<noteq> 1)
      \<and> created_invoice env 0 r \<noteq> None)"

definition invoice_outcome :: "env \<Rightarrow> pydict \<Rightarrow> member list \<Rightarrow> invoice list \<Rightarrow> outcome" where
  "invoice_outcome env r ms is =
     (case gate_result r ms of
        Inl e \<Rightarrow> Raised e
      | Inr True \<Rightarrow> Returned
      | Inr False \<Rightarrow>
          (case r ''Id'' of
             None \<Rightarrow> Raised (KeyError ''Id'')
           | Some k \<Rightarrow>
               if length (filter (\<lambda>i. nexudus_invoice_id i = k) is) = 1 then Returned
               else
                 (case r ''BusinessId'' of
                    None \<Rightarrow> Raised (KeyError ''BusinessId'')
                  | Some bid \<Rightarrow>
                      (case r ''TotalAmount'' of
                         None \<Rightarrow> Raised (KeyError ''TotalAmount'')
                       | Some total_v \<Rightarrow>
                           (case py_float env total_v of
                              Inl e \<Rightarrow> Raised e
                            | Inr a \<Rightarrow> Returned)))))"

definition invoice_table :: "env \<Rightarrow> int \<Rightarrow> pydict \<Rightarrow> member list \<Rightarrow> invoice list \<Rightarrow> invoice list" where
  "invoice_table env t r ms is =
     (if gate_result r ms = Inr False
      then (case r ''Id'' of
              None \<Rightarrow> is
            | Some k \<Rightarrow>
                if length (filter (\<lambda>i. nexudus_invoice_id i = k) is) = 1 then is
                else filter (\<lambda>i. nexudus_invoice_id i \<noteq> k) is
                       @ (case created_invoice env t r of None \<Rightarrow> [] | Some i \<Rightarrow> [i]))
      else is)"

text \<open>
  An outcome aborts the run when it is an exception that the callback of \<open>sync_table\<close> does
  not catch. An invoice record is settled in given tables when reconciling it there changes
  no table and does not abort: it is gated or lacks its owner, or it has its one row, or it
  has no row and fails with a caught exception before it can add one.
\<close>

definition aborts :: "outcome \<Rightarrow> bool" where
  "aborts out = (case out of Returned \<Rightarrow> False | Raised (KeyError k) \<Rightarrow> False | Raised e \<Rightarrow> True)"

definition settled_invoice :: "env \<Rightarrow> pydict \<Rightarrow> member list \<Rightarrow> invoice list \<Rightarrow> bool" where
  "settled_invoice env r ms is =
     (gate_result r ms = Inr False \<longrightarrow>
      (case r ''Id'' of
         None \<Rightarrow> True
       | Some k \<Rightarrow>
           length (filter (\<lambda>i. nexudus_invoice_id i = k) is) = 1
           \<or> (filter (\<lambda>i. nexudus_invoice_id i = k) is = []
               \<and> created_invoice env 0 r = None
               \<and> \<not> aborts (invoice_outcome env r ms is))))"

section \<open>The Member reconciler, by the result of the lookup\<close>

lemma strip_Nil [simp]: "strip [] = []"
  by (simp add: strip_def)

lemma strip_examples:
  "strip '' 123 '' = ''123''" "strip '' 456 '' = ''456''" "strip ''   '' = []"
  by (simp_all add: strip_def isspace_def)

lemma nstrip_text:
  "is_text v \<Longrightarrow> nstrip v = Inr (if v = PNone \<or> v = PStr [] then PNone else PStr (trimmed v))"
  by (cases v) (auto simp: is_text_def nstrip_def trimmed_def)

lemma ach_populated_text:
  "is_text (routing_number m) \<Longrightarrow> is_text (account_number m) \<Longrightarrow>
   ach_populated m = Inr (bank_populated (routing_number m) (account_number m))"
  by (auto simp: ach_populated_def nstrip_text bank_populated_def trimmed_def)

lemma overwrite_member_complete:
  assumes "record ''FullName'' = Some fn" and "record ''BillingName'' = Some bn"
    and "record ''Email'' = Some (PStr e)"
    and "record ''BankBranch'' = Some bb" and "record ''BankAccount'' = Some ba"
    and "is_text bb" and "is_text ba"
  shows "overwrite_member env record rid already_stored m0 =
    (Inr (Log ''flask.app'' DEBUG [Lit (''Syncing '' @ e @ '' ...'')]),
     m0\<lparr>nexudus_user_id := rid, fullname := fn, billing_name := (if truthy bn then bn else fn),
        email := PStr e, routing_number := bb, account_number := ba,
        process_automatically :=
          (if bank_populated bb ba
           then (if already_stored then process_automatically m0
                 else Some (PROCESS_AUTOMATICALLY env))
           else Some False)\<rparr>)"
  using assms by (simp add: overwrite_member_def Let_def ach_populated_text)

lemma add_member_new:
  assumes "record ''Id'' = Some rid"
    and "filter (\<lambda>m. nexudus_user_id m = rid) (members s) = []"
  shows "add_or_overwrite_member env record s =
    (case overwrite_member env record rid False new_Member of
       (Inl e, m) \<Rightarrow> (Raised e, s\<lparr>members := members s @ [m]\<rparr>)
     | (Inr msg, m) \<Rightarrow>
         (Returned, commit (s\<lparr>members := members s @ [m], logged := logged s @ [msg]\<rparr>)))"
  using assms
  by (simp add: add_or_overwrite_member_def flush_member_def split: prod.splits sum.splits)

lemma add_member_found:
  assumes "record ''Id'' = Some rid"
    and "filter (\<lambda>m. nexudus_user_id m = rid) (members s) = [m0]"
  shows "add_or_overwrite_member env record s =
    (case overwrite_member env record rid True m0 of
       (Inl e, m) \<Rightarrow>
         (Raised e,
          s\<lparr>members := map (\<lambda>x. if nexudus_user_id x = rid then m else x) (members s)\<rparr>)
     | (Inr msg, m) \<Rightarrow>
         (Returned,
          commit (s\<lparr>members := map (\<lambda>x. if nexudus_user_id x = rid then m else x) (members s),
                    logged := logged s @ [msg]\<rparr>)))"
  using assms
  by (simp add: add_or_overwrite_member_def flush_member_def split: prod.splits sum.splits)

lemma add_member_multiple:
  assumes "record ''Id'' = Some rid"
    and "filter (\<lambda>m. nexudus_user_id m = rid) (members s) = x # y # zs"
  shows "add_or_overwrite_member env record s =
    (let s1 = s\<lparr>members := filter (\<lambda>m. nexudus_user_id m \<noteq> rid) (members s),
                 logged := logged s @ [multiple_users_warning rid]\<rparr> in
     case overwrite_member env record rid False new_Member of
       (Inl e, m) \<Rightarrow> (Raised e, s1\<lparr>members := members s1 @ [m]\<rparr>)
     | (Inr msg, m) \<Rightarrow>
         (Returned, commit (s1\<lparr>members := members s1 @ [m], logged := logged s1 @ [msg]\<rparr>)))"
  using assms
  by (simp add: add_or_overwrite_member_def flush_member_def Let_def
      split: prod.splits sum.splits)

lemma filter_map_replace:
  "nexudus_user_id m = rid \<Longrightarrow>
   filter (\<lambda>x. nexudus_user_id x = rid)
     (map (\<lambda>x. if nexudus_user_id x = rid then m else x) xs)
     = map (\<lambda>_. m) (filter (\<lambda>x. nexudus_user_id x = rid) xs)"
  by (induction xs) auto

lemma jane_record_fields:
  "jane_record ''Id'' = Some (PInt 5)" "jane_record ''FullName'' = Some (PStr ''Jane Doe'')"
  "jane_record ''BillingName'' = Some (PStr [])" "jane_record ''Email'' = Some (PStr ''a@b.com'')"
  "jane_record ''BankBranch'' = Some (PStr '' 123 '')"
  "jane_record ''BankAccount'' = Some (PStr '' 456 '')"
  by (simp_all add: jane_record_def)

lemma jane_blank_record_fields:
  "jane_blank_record ''Id'' = Some (PInt 5)"
  "jane_blank_record ''FullName'' = Some (PStr ''Jane Doe'')"
  "jane_blank_record ''BillingName'' = Some (PStr [])"
  "jane_blank_record ''Email'' = Some (PStr ''a@b.com'')"
  "jane_blank_record ''BankBranch'' = Some (PStr ''   '')"
  "jane_blank_record ''BankAccount'' = Some PNone"
  by (simp_all add: jane_blank_record_def)

lemma jane_populated:
  "bank_populated (PStr '' 123 '') (PStr '' 456 '')" "\<not> bank_populated (PStr ''   '') PNone"
  "is_text (PStr t)" "is_text PNone"
  by (simp_all add: bank_populated_def trimmed_def strip_examples is_text_def)

section \<open>Claims about one Member record\<close>

text \<open>
  C10 as stated: the Member created from the example record would hold the bank routing
  number \<open>123\<close> and the bank account number \<open>456\<close>. The reconciler stores both as received,
  with their surrounding blanks.
\<close>

theorem jane_doe_bank_fields_untrimmed:
  "members (snd (add_or_overwrite_member (example_env True) jane_record (store [] []))) =
     [\<lparr>nexudus_user_id = PInt 5, fullname = PStr ''Jane Doe'', billing_name = PStr ''Jane Doe'',
       email = PStr ''a@b.com'', routing_number = PStr '' 123 '',
       account_number = PStr '' 456 '', process_automatically = Some True\<rparr>]
   \<and> PStr '' 123 '' \<noteq> PStr ''123'' \<and> PStr '' 456 '' \<noteq> PStr ''456''"
  by (simp add: add_member_new [where rid = "PInt 5"] jane_record_fields store_def
      overwrite_member_complete [OF jane_record_fields(2-6)] jane_populated new_Member_def
      commit_def example_env_def)

text \<open>
  C10 (amended): reconciling the example record (Id 5, no CoworkerId, FullName "Jane Doe",
  empty BillingName, Email "a@b.com", BankBranch " 123 ", BankAccount " 456 ") against a
  store with no Member for id 5 returns normally, commits, and adds one Member with billing
  name "Jane Doe", bank routing " 123 " and bank account " 456 " as received (untrimmed), and
  \<open>process_automatically\<close> equal to the configured default.
\<close>

theorem jane_doe_created:
  assumes "filter (\<lambda>m. nexudus_user_id m = PInt 5) (members s) = []"
  shows "add_or_overwrite_member env jane_record s =
    (Returned,
     commit (s\<lparr>members := members s @ [jane_member (PROCESS_AUTOMATICALLY env)],
               logged := logged s @ [Log ''flask.app'' DEBUG [Lit ''Syncing a@b.com ...'']]\<rparr>))"
  using assms
  by (simp add: add_member_new [where rid = "PInt 5"] jane_record_fields
      overwrite_member_complete [OF jane_record_fields(2-6)] jane_populated new_Member_def
      jane_member_def)

theorem jane_doe_created_witness:
  "filter (\<lambda>m. nexudus_user_id m = PInt 5) (members (store [] [])) = []
   \<and> add_or_overwrite_member (example_env False) jane_record (store [] []) =
       (Returned,
        \<lparr>members = [jane_member False], invoices = [],
         committed_members = [jane_member False], committed_invoices = [],
         logged = [Log ''flask.app'' DEBUG [Lit ''Syncing a@b.com ...'']], clock = 0\<rparr>)"
  using jane_doe_created [of "store [] []" "example_env False"]
  by (simp add: store_def example_env_def commit_def)

text \<open>
  C4: when no local row matches the Id of a remote Member record (a record that has every
  field the reconciler reads, a string for its email and text or null for its bank fields),
  the reconciler returns normally and commits one new Member, whose
  \<open>process_automatically\<close> is the configured default if both trimmed bank fields are
  non-empty, and false if either is blank or whitespace-only.
\<close>

theorem new_member_auto_process:
  assumes "record ''Id'' = Some rid"
    and "filter (\<lambda>m. nexudus_user_id m = rid) (members s) = []"
    and "record ''FullName'' = Some fn" and "record ''BillingName'' = Some bn"
    and "record ''Email'' = Some (PStr e)"
    and "record ''BankBranch'' = Some bb" and "record ''BankAccount'' = Some ba"
    and "is_text bb" and "is_text ba"
  shows "\<exists>m s'. add_or_overwrite_member env record s = (Returned, s')
           \<and> members s' = members s @ [m] \<and> committed_members s' = members s'
           \<and> nexudus_user_id m = rid
           \<and> process_automatically m =
               Some (if bank_populated bb ba then PROCESS_AUTOMATICALLY env else False)"
  using assms
  by (simp add: add_member_new overwrite_member_complete commit_def new_Member_def)

theorem new_member_auto_process_witness:
  "(\<exists>m s'. add_or_overwrite_member (example_env True) jane_record (store [] []) = (Returned, s')
      \<and> members s' = [m] \<and> committed_members s' = members s'
      \<and> nexudus_user_id m = PInt 5 \<and> process_automatically m = Some True)
   \<and> (\<exists>m s'. add_or_overwrite_member (example_env True) jane_blank_record (store [] [])
                = (Returned, s')
      \<and> members s' = [m] \<and> committed_members s' = members s'
      \<and> nexudus_user_id m = PInt 5 \<and> process_automatically m = Some False)"
  using new_member_auto_process [OF jane_record_fields(1) _ jane_record_fields(2-6),
      of "store [] []" "example_env True"]
    new_member_auto_process [OF jane_blank_record_fields(1) _ jane_blank_record_fields(2-6),
      of "store [] []" "example_env True"]
  by (simp add: jane_populated store_def example_env_def)

text \<open>
  C3: when the lookup finds the Member already stored (one row) with
  \<open>process_automatically\<close> true, reconciling a record (with every field the reconciler
  reads, a string for its email and text or null for its bank fields) returns normally and
  commits, and the stored row then has \<open>process_automatically\<close> true if both trimmed bank
  fields are non-empty, and false if they are blank.
\<close>

theorem stored_member_auto_process:
  assumes "record ''Id'' = Some rid"
    and "filter (\<lambda>m. nexudus_user_id m = rid) (members s) = [m0]"
    and "process_automatically m0 = Some True"
    and "record ''FullName'' = Some fn" and "record ''BillingName'' = Some bn"
    and "record ''Email'' = Some (PStr e)"
    and "record ''BankBranch'' = Some bb" and "record ''BankAccount'' = Some ba"
    and "is_text bb" and "is_text ba"
  shows "\<exists>m s'. add_or_overwrite_member env record s = (Returned, s')
           \<and> filter (\<lambda>x. nexudus_user_id x = rid) (members s') = [m]
           \<and> committed_members s' = members s'
           \<and> process_automatically m = Some (bank_populated bb ba)"
  using assms
  by (simp add: add_member_found overwrite_member_complete commit_def filter_map_replace)

theorem stored_member_auto_process_witness:
  "(\<exists>m s'. add_or_overwrite_member (example_env False) jane_record (store [jane_member True] [])
                = (Returned, s')
      \<and> filter (\<lambda>x. nexudus_user_id x = PInt 5) (members s') = [m]
      \<and> committed_members s' = members s' \<and> process_automatically m = Some True)
   \<and> (\<exists>m s'. add_or_overwrite_member (example_env True) jane_blank_record
                (store [jane_member True] []) = (Returned, s')
      \<and> filter (\<lambda>x. nexudus_user_id x = PInt 5) (members s') = [m]
      \<and> committed_members s' = members s' \<and> process_automatically m = Some False)"
  using stored_member_auto_process [OF jane_record_fields(1) _ _ jane_record_fields(2-6),
      of "store [jane_member True] []" "jane_member True" "example_env False"]
    stored_member_auto_process [OF jane_blank_record_fields(1) _ _ jane_blank_record_fields(2-6),
      of "store [jane_member True] []" "jane_member True" "example_env True"]
  by (simp add: jane_populated store_def jane_member_def)

section \<open>Claims about one Invoice record\<close>

lemma member_gate_tables:
  "invoices (snd (member_gate record s)) = invoices s"
  "committed_invoices (snd (member_gate record s)) = committed_invoices s"
  "members (snd (member_gate record s)) = members s"
  "committed_members (snd (member_gate record s)) = committed_members s"
  "clock (snd (member_gate record s)) = clock s"
  by (auto simp: member_gate_def split: option.splits sum.splits)

text \<open>
  C5: when the owner id of a remote Invoice record is that of a local Member (the lookup
  finds one row) whose \<open>process_automatically\<close> is false, the Invoice reconciler returns at
  once: it raises nothing and the session is left exactly as it was, so no Invoice row is
  created or modified.
\<close>

theorem gated_invoice_no_effect:
  assumes "record ''CoworkerId'' = Some cid"
    and "filter (\<lambda>m. nexudus_user_id m = cid) (members s) = [m]"
    and "process_automatically m = Some False"
  shows "add_or_overwrite_invoice env record s = (Returned, s)"
  using assms by (simp add: add_or_overwrite_invoice_def member_gate_def)

theorem gated_invoice_no_effect_witness:
  "invoice_nine_record ''CoworkerId'' = Some (PInt 5)
   \<and> filter (\<lambda>m. nexudus_user_id m = PInt 5) (members (store [jane_member False] []))
       = [jane_member False]
   \<and> process_automatically (jane_member False) = Some False
   \<and> add_or_overwrite_invoice (example_env True) invoice_nine_record
        (store [jane_member False] []) = (Returned, store [jane_member False] [])"
  using gated_invoice_no_effect [of invoice_nine_record "PInt 5" "store [jane_member False] []"
      "jane_member False" "example_env True"]
  by (simp add: invoice_nine_record_def store_def jane_member_def)

text \<open>
  C6: when the Id of a remote Invoice record matches exactly one local Invoice, the
  reconciler leaves the Invoice table as it was, in the session and as committed: no field
  of that Invoice changes, whatever amount the record carries.
\<close>

theorem existing_invoice_unchanged:
  assumes "record ''Id'' = Some rid"
    and "filter (\<lambda>i. nexudus_invoice_id i = rid) (invoices s) = [i0]"
  shows "invoices (snd (add_or_overwrite_invoice env record s)) = invoices s
       \<and> committed_invoices (snd (add_or_overwrite_invoice env record s)) = committed_invoices s"
proof -
  obtain r s0 where g: "member_gate record s = (r, s0)"
    by (cases "member_gate record s")
  with member_gate_tables(1,2) [of "record" s]
  have "invoices s0 = invoices s" and "committed_invoices s0 = committed_invoices s"
    by simp_all
  with assms g show ?thesis
    by (cases r) (auto simp: add_or_overwrite_invoice_def split: bool.splits)
qed

theorem existing_invoice_unchanged_witness:
  "invoice_nine_record ''Id'' = Some (PInt 9)
   \<and> filter (\<lambda>i. nexudus_invoice_id i = PInt 9) (invoices (store [] [invoice_nine 10]))
       = [invoice_nine 10]
   \<and> invoice_nine_record ''TotalAmount'' = Some (PFloat (85 / 2))
   \<and> invoices (snd (add_or_overwrite_invoice (example_env True) invoice_nine_record
         (store [] [invoice_nine 10]))) = [invoice_nine 10]
   \<and> committed_invoices (snd (add_or_overwrite_invoice (example_env True) invoice_nine_record
         (store [] [invoice_nine 10]))) = [invoice_nine 10]"
  using existing_invoice_unchanged [of invoice_nine_record "PInt 9" "store [] [invoice_nine 10]"
      "invoice_nine 10" "example_env True"]
  by (simp add: invoice_nine_record_def store_def invoice_nine_def)

section \<open>Claims about fetching\<close>

text \<open>
  C8: when the generator was created with \<open>single\<close> set and the total item count that a
  response reports is a number other than 1, resuming the generator raises
  \<open>MultipleResultsFoundException\<close>; the request has been sent, and no batch is yielded.
\<close>

theorem single_result_contract:
  assumes "single g" and "truthy (has_next_page g)"
    and "requests_get env (url g) ((params g)(''page'' \<mapsto> PInt (current_page g + 1))) (creds g)
          = Inr res"
    and "TotalItems res = Some total_items"
    and "py_int env total_items = Inr n" and "n \<noteq> 1"
  shows "next_records env g =
           GenRaised MultipleResultsFoundException
             (g\<lparr>current_page := current_page g + 1,
                params := (params g)(''page'' \<mapsto> PInt (current_page g + 1)),
                pages_requested := pages_requested g @ [current_page g + 1]\<rparr>)"
  using assms by (simp add: next_records_def single_check_def Let_def)

theorem single_result_contract_witness:
  "single (get_records (example_env True) ''billing/coworkerinvoices'' Map.empty True)
   \<and> py_int (example_env True) (PInt 2) = Inr 2 \<and> (2::int) \<noteq> 1
   \<and> next_records (example_env True)
        (get_records (example_env True) ''billing/coworkerinvoices'' Map.empty True)
      = GenRaised MultipleResultsFoundException
          ((get_records (example_env True) ''billing/coworkerinvoices'' Map.empty True)
             \<lparr>current_page := 1, params := [''page'' \<mapsto> PInt 1], pages_requested := [1]\<rparr>)"
  using single_result_contract [of "get_records (example_env True) ''billing/coworkerinvoices''
      Map.empty True" "example_env True" "example_response True [invoice_nine_record]" "PInt 2" 2]
  by (simp add: get_records_def example_env_def example_remote_def example_response_def)

section \<open>Pagination\<close>

lemma upto_snoc: "i \<le> j \<Longrightarrow> [i..j] = [i..j - 1] @ [j]"
  using upto_rec2 by blast

text \<open>
  The loop from the state reached after page \<open>k\<close>, when the remote has \<open>N\<close> pages:
  induction on the number of pages left.
\<close>

lemma pages_loop:
  fixes N :: int
  assumes resp: "\<And>p. 1 \<le> p \<Longrightarrow> p \<le> N \<Longrightarrow>
        requests_get env u (payload(''page'' \<mapsto> PInt p)) c =
          Inr \<lparr>TotalItems = ti p, HasNextPage = Some (flag p), Records = Some (batch p)\<rparr>"
    and flag: "\<And>p. 1 \<le> p \<Longrightarrow> p \<le> N \<Longrightarrow> truthy (flag p) = (p < N)"
  shows "n = nat (N - k) \<Longrightarrow> 0 \<le> k \<Longrightarrow> k \<le> N \<Longrightarrow> url g = u \<Longrightarrow> creds g = c \<Longrightarrow>
     \<not> single g \<Longrightarrow> current_page g = k \<Longrightarrow> truthy (has_next_page g) = (k < N) \<Longrightarrow>
     params g = payload \<or> params g = payload(''page'' \<mapsto> PInt k) \<Longrightarrow>
     pages_requested g = [1..k] \<Longrightarrow>
     \<exists>g'. process_batch_loop env collect g acc = Some (Returned, g', acc @ map batch [k + 1..N])
        \<and> pages_requested g' = [1..N]"
proof (induction n arbitrary: k g acc)
  case 0
  then have "k = N" by simp
  with 0 show ?case
    by (subst process_batch_loop.simps) (simp add: next_records_def)
next
  case (Suc n)
  then have kN: "k < N" by simp
  let ?p = "k + 1"
  let ?g1 = "g\<lparr>current_page := ?p, params := (params g)(''page'' \<mapsto> PInt ?p),
                pages_requested := pages_requested g @ [?p]\<rparr>"
  let ?g2 = "?g1\<lparr>has_next_page := flag ?p\<rparr>"
  have pq: "(params g)(''page'' \<mapsto> PInt ?p) = payload(''page'' \<mapsto> PInt ?p)"
    using Suc.prems(9) by auto
  have nx: "next_records env g = Yield (batch ?p) ?g2"
    using Suc.prems(1-8,10) kN resp [of ?p]
    by (simp add: next_records_def Let_def single_check_def pq)
  have "\<exists>g'. process_batch_loop env collect ?g2 (acc @ [batch ?p])
           = Some (Returned, g', (acc @ [batch ?p]) @ map batch [?p + 1..N])
        \<and> pages_requested g' = [1..N]"
  proof (rule Suc.IH)
    show "n = nat (N - ?p)" using Suc.prems by simp
    show "truthy (has_next_page ?g2) = (?p < N)" using flag [of ?p] Suc.prems kN by simp
    show "pages_requested ?g2 = [1..?p]" using Suc.prems upto_snoc [of 1 ?p] by simp
    show "params ?g2 = payload \<or> params ?g2 = payload(''page'' \<mapsto> PInt ?p)"
      by (simp add: pq)
  qed (use Suc.prems(1-8,10) kN in simp_all)
  then obtain g' where
    "process_batch_loop env collect ?g2 (acc @ [batch ?p])
       = Some (Returned, g', (acc @ [batch ?p]) @ map batch [?p + 1..N])"
    "pages_requested g' = [1..N]" by blast
  moreover have "[k + 1..N] = ?p # [?p + 1..N]" using kN by (simp add: upto_rec1)
  ultimately show ?case
    by (subst process_batch_loop.simps) (simp add: nx collect_def)
qed

text \<open>
  C7: for every \<open>N \<ge> 1\<close>, when the remote answers the requests for pages 1 to \<open>N\<close> with a
  continuation flag that is true on pages 1 to \<open>N - 1\<close> and false on page \<open>N\<close>, consuming
  \<open>get_records\<close> returns normally after exactly the \<open>N\<close> batches of these pages, in order,
  and the pages requested are 1, 2, ..., \<open>N\<close> in this order.
\<close>

theorem pagination_terminates:
  fixes N :: int
  assumes "1 \<le> N"
    and "\<And>p. 1 \<le> p \<Longrightarrow> p \<le> N \<Longrightarrow>
        requests_get env (NEXUDUS_API_URL env @ url_part) (payload(''page'' \<mapsto> PInt p))
            (NEXUDUS_EMAIL env, NEXUDUS_PASS env) =
          Inr \<lparr>TotalItems = ti p, HasNextPage = Some (flag p), Records = Some (batch p)\<rparr>"
    and "\<And>p. 1 \<le> p \<Longrightarrow> p \<le> N \<Longrightarrow> truthy (flag p) = (p < N)"
  shows "\<exists>g. process_batch env url_part collect payload []
               = Some (Returned, g, map batch [1..N])
             \<and> pages_requested g = [1..N]"
proof -
  let ?g = "get_records env url_part payload False"
  have "\<exists>g'. process_batch_loop env collect ?g [] = Some (Returned, g', [] @ map batch [0 + 1..N])
          \<and> pages_requested g' = [1..N]"
    by (rule pages_loop [where k = 0 and n = "nat N" and ti = ti and flag = flag
          and u = "NEXUDUS_API_URL env @ url_part"
          and c = "(NEXUDUS_EMAIL env, NEXUDUS_PASS env)" and payload = payload])
       (use assms in \<open>simp_all add: get_records_def\<close>)
  then show ?thesis by (simp add: process_batch_def)
qed

theorem pagination_terminates_witness:
  "(1::int) \<le> 2
   \<and> (\<exists>g. process_batch (example_env True) ''spaces/coworkers'' collect Map.empty []
            = Some (Returned, g, [[jane_record], [jane_blank_record]])
          \<and> pages_requested g = [1, 2])"
proof -
  have two: "[1..2::int] = [1, 2]" by (simp add: upto_rec1)
  have "\<exists>g. process_batch (example_env True) ''spaces/coworkers'' collect Map.empty []
               = Some (Returned, g,
                    map (\<lambda>p. if p = 1 then [jane_record] else [jane_blank_record]) [1..2])
             \<and> pages_requested g = [1..2]"
  proof (rule pagination_terminates [where ti = "\<lambda>p. Some (PInt 2)"
        and flag = "\<lambda>p. PBool (p = 1)"])
    fix p :: int
    assume "1 \<le> p" and "p \<le> 2"
    then have "p = 1 \<or> p = 2" by arith
    then show "requests_get (example_env True) (NEXUDUS_API_URL (example_env True) @ ''spaces/coworkers'')
            (Map.empty(''page'' \<mapsto> PInt p))
            (NEXUDUS_EMAIL (example_env True), NEXUDUS_PASS (example_env True)) =
          Inr \<lparr>TotalItems = Some (PInt 2), HasNextPage = Some (PBool (p = 1)),
               Records = Some (if p = 1 then [jane_record] else [jane_blank_record])\<rparr>"
      by (auto simp: example_env_def example_remote_def example_response_def)
    from \<open>p = 1 \<or> p = 2\<close> show "truthy (PBool (p = 1)) = (p < 2)" by auto
  qed simp
  then show ?thesis by (simp add: two)
qed

section \<open>Failures during a sync run\<close>

lemma callback_never_raises_KeyError:
  "fst (callback sync_callback records s) \<noteq> Raised (KeyError k)"
proof (induction records arbitrary: s)
  case Nil
  show ?case by simp
next
  case (Cons r records)
  obtain out s1 where step: "sync_callback r s = (out, s1)"
    by (cases "sync_callback r s")
  show ?case
  proof (cases out)
    case Returned
    with step Cons.IH [of s1] show ?thesis by simp
  next
    case (Raised e)
    with step Cons.IH show ?thesis by (cases e) simp_all
  qed
qed

text \<open>
  C9: in the callback that \<open>sync_table\<close> gives to \<open>process_batch\<close>, a \<open>KeyError\<close> raised
  by the reconciler for one record is caught and logged with the key, and the remaining
  records of the batch are processed; no \<open>KeyError\<close> of a reconciler leaves the callback. Any
  other exception of the reconciler leaves the callback at once, and the run ends with it;
  an exception raised by the fetch ends the run as well.
\<close>

theorem key_error_isolated:
  "(sync_callback r1 s = (Raised (KeyError k), s1) \<longrightarrow>
      callback sync_callback (r1 # records) s =
        callback sync_callback records
          (s1\<lparr>logged := logged s1 @ [invalid_key_error (KeyError k)]\<rparr>))
   \<and> fst (callback sync_callback records s) \<noteq> Raised (KeyError k')
   \<and> (sync_callback r2 s = (Raised e, s2) \<and> (\<forall>k. e \<noteq> KeyError k) \<longrightarrow>
        callback sync_callback (r2 # records) s = (Raised e, s2))
   \<and> (next_records env g = Yield record_list g1 \<and>
        callback sync_callback record_list s = (Raised e', s3) \<longrightarrow>
        process_batch_loop env (callback sync_callback) g s = Some (Raised e', g1, s3))
   \<and> (next_records env gf = GenRaised e'' g2 \<longrightarrow>
        process_batch_loop env (callback sync_callback) gf sf = Some (Raised e'', g2, sf))"
proof (intro conjI impI)
  show "fst (callback sync_callback records s) \<noteq> Raised (KeyError k')"
    by (rule callback_never_raises_KeyError)
next
  assume "sync_callback r2 s = (Raised e, s2) \<and> (\<forall>k. e \<noteq> KeyError k)"
  then show "callback sync_callback (r2 # records) s = (Raised e, s2)"
    by (cases e) simp_all
next
  assume "next_records env g = Yield record_list g1 \<and>
    callback sync_callback record_list s = (Raised e', s3)"
  then show "process_batch_loop env (callback sync_callback) g s = Some (Raised e', g1, s3)"
    by (subst process_batch_loop.simps) simp
next
  assume "next_records env gf = GenRaised e'' g2"
  then show "process_batch_loop env (callback sync_callback) gf sf = Some (Raised e'', g2, sf)"
    by (subst process_batch_loop.simps) simp
qed simp

lemma faulty_nameless:
  "add_or_overwrite_invoice faulty_env nameless_record (store [] [])
     = (Raised (KeyError ''CoworkerId''), store [] [])"
  by (simp add: add_or_overwrite_invoice_def member_gate_def nameless_record_def)

lemma faulty_bad_amount:
  "add_or_overwrite_invoice faulty_env invoice_bad_record (s\<lparr>members := [], invoices := []\<rparr>)
     = (Raised TypeError, s\<lparr>members := [], invoices := [], clock := Suc (clock s)\<rparr>)"
  by (simp add: add_or_overwrite_invoice_def member_gate_def invoice_bad_record_def Let_def)

lemma faulty_page_1:
  "next_records faulty_env faulty_gen = Yield [nameless_record, invoice_bad_record] faulty_gen_1"
  by (simp add: next_records_def faulty_gen_def faulty_gen_1_def get_records_def faulty_env_def
      example_env_def faulty_remote_def example_response_def single_check_def Let_def)

lemma faulty_page_2:
  "next_records faulty_env faulty_gen_1 =
     GenRaised (RequestError ''connection reset'') faulty_gen_2"
  by (simp add: next_records_def faulty_gen_def faulty_gen_1_def faulty_gen_2_def get_records_def
      faulty_env_def example_env_def faulty_remote_def example_response_def single_check_def
      Let_def)

theorem key_error_isolated_witness:
  "add_or_overwrite_invoice faulty_env nameless_record (store [] [])
     = (Raised (KeyError ''CoworkerId''), store [] [])
   \<and> callback (add_or_overwrite_invoice faulty_env) [nameless_record, invoice_nine_record]
        (store [] [])
     = callback (add_or_overwrite_invoice faulty_env) [invoice_nine_record]
         ((store [] [])\<lparr>logged := [invalid_key_error (KeyError ''CoworkerId'')]\<rparr>)
   \<and> fst (callback (add_or_overwrite_invoice faulty_env) [invoice_nine_record] (store [] []))
       \<noteq> Raised (KeyError ''TotalAmount'')
   \<and> add_or_overwrite_invoice faulty_env invoice_bad_record (store [] [])
     = (Raised TypeError, (store [] [])\<lparr>clock := 1\<rparr>)
   \<and> callback (add_or_overwrite_invoice faulty_env) [invoice_bad_record, invoice_nine_record]
        (store [] [])
     = (Raised TypeError, (store [] [])\<lparr>clock := 1\<rparr>)
   \<and> process_batch_loop faulty_env (callback (add_or_overwrite_invoice faulty_env)) faulty_gen
        (store [] [])
     = Some (Raised TypeError, faulty_gen_1,
         (store [] [])\<lparr>logged := [invalid_key_error (KeyError ''CoworkerId'')], clock := 1\<rparr>)
   \<and> process_batch_loop faulty_env (callback (add_or_overwrite_invoice faulty_env)) faulty_gen_1
        (store [jane_member True] [])
     = Some (Raised (RequestError ''connection reset''), faulty_gen_2,
         store [jane_member True] [])"
proof -
  have bad: "add_or_overwrite_invoice faulty_env invoice_bad_record (store [] [])
     = (Raised TypeError, (store [] [])\<lparr>clock := 1\<rparr>)"
    using faulty_bad_amount [of "store [] []"] by (simp add: store_def)
  have batch: "callback (add_or_overwrite_invoice faulty_env)
        [nameless_record, invoice_bad_record] (store [] [])
     = (Raised TypeError,
        (store [] [])\<lparr>logged := [invalid_key_error (KeyError ''CoworkerId'')], clock := 1\<rparr>)"
    using faulty_bad_amount
      [of "(store [] [])\<lparr>logged := [invalid_key_error (KeyError ''CoworkerId'')]\<rparr>"]
    by (simp add: faulty_nameless) (simp add: store_def)
  show ?thesis
    using key_error_isolated [where sync_callback = "add_or_overwrite_invoice faulty_env"
        and ?r1.0 = nameless_record and s = "store [] []" and k = "''CoworkerId''"
        and ?s1.0 = "store [] []" and records = "[invoice_nine_record]"
        and k' = "''TotalAmount''" and ?r2.0 = invoice_bad_record and e = TypeError
        and ?s2.0 = "(store [] [])\<lparr>clock := 1\<rparr>" and env = faulty_env and g = faulty_gen
        and record_list = "[nameless_record, invoice_bad_record]" and ?g1.0 = faulty_gen_1
        and e' = TypeError
        and ?s3.0 = "(store [] [])\<lparr>logged := [invalid_key_error (KeyError ''CoworkerId'')],
                                    clock := 1\<rparr>"
        and gf = faulty_gen_1 and e'' = "RequestError ''connection reset''"
        and ?g2.0 = faulty_gen_2 and sf = "store [jane_member True] []"]
      faulty_nameless bad batch faulty_page_1 faulty_page_2
    by (simp add: store_def)
qed

section \<open>A run as a list of records\<close>

text \<open>
  The loop of \<open>process_batch\<close> with the callback of \<open>sync_table\<close> does to the session what
  the callback does to the concatenation of the batches fetched; the fetch does not depend
  on the session.
\<close>

lemma callback_append:
  "callback f (xs @ ys) s =
     (case callback f xs s of
        (Returned, s1) \<Rightarrow> callback f ys s1
      | (Raised e, s1) \<Rightarrow> (Raised e, s1))"
proof (induction xs arbitrary: s)
  case Nil
  show ?case by simp
next
  case (Cons x xs)
  obtain out s1 where step: "f x s = (out, s1)" by (cases "f x s")
  show ?case
  proof (cases out)
    case Returned
    with step Cons.IH show ?thesis by simp
  next
    case (Raised e)
    with step Cons.IH show ?thesis by (cases e) simp_all
  qed
qed

lemma loop_as_list_aux:
  "process_batch_loop env cb g s = Some y \<Longrightarrow> cb = callback f \<Longrightarrow>
   \<exists>bs fin. fetched env g bs (fst (snd y)) fin \<and>
           (case fin of
              Some oc \<Rightarrow> callback f (concat bs) s = (Returned, snd (snd y)) \<and> fst y = oc
            | None \<Rightarrow> callback f (concat bs) s = (fst y, snd (snd y)) \<and> fst y \<noteq> Returned)"
proof (induction env cb g s y
    rule: process_batch_loop.raw_induct [rotated, consumes 1, case_names step])
  case (step loop env cb g s y)
  note IH = step.IH and eq = step.hyps and cb = step.prems
  show ?case
  proof (cases "next_records env g")
    case (StopIteration g1)
    with eq have y: "y = (Returned, g1, s)" by simp
    from StopIteration have "fetched env g [] g1 (Some Returned)" by (rule fetched.exhausted)
    with y show ?thesis
      by - (rule exI [of _ "[]"], rule exI [of _ "Some Returned"], simp)
  next
    case (GenRaised e g1)
    with eq have y: "y = (Raised e, g1, s)" by simp
    from GenRaised have "fetched env g [] g1 (Some (Raised e))" by (rule fetched.failed)
    with y show ?thesis
      by - (rule exI [of _ "[]"], rule exI [of _ "Some (Raised e)"], simp)
  next
    case (Yield b g1)
    obtain o1 s1 where step: "callback f b s = (o1, s1)" by (cases "callback f b s")
    show ?thesis
    proof (cases o1)
      case Returned
      with eq Yield step cb have "loop env cb g1 s1 = Some y" by simp
      from IH [OF this cb] obtain bs fin where
        f: "fetched env g1 bs (fst (snd y)) fin" and
        r: "case fin of
              Some oc \<Rightarrow> callback f (concat bs) s1 = (Returned, snd (snd y)) \<and> fst y = oc
            | None \<Rightarrow> callback f (concat bs) s1 = (fst y, snd (snd y)) \<and> fst y \<noteq> Returned"
        by blast
      from Yield f have "fetched env g (b # bs) (fst (snd y)) fin" by (rule fetched.yielded)
      moreover from r step Returned have "case fin of
              Some oc \<Rightarrow> callback f (concat (b # bs)) s = (Returned, snd (snd y)) \<and> fst y = oc
            | None \<Rightarrow> callback f (concat (b # bs)) s = (fst y, snd (snd y)) \<and> fst y \<noteq> Returned"
        by (simp add: callback_append split: option.splits)
      ultimately show ?thesis by blast
    next
      case (Raised e)
      with eq Yield step cb have y: "y = (Raised e, g1, s1)" by simp
      from Yield have "fetched env g [b] g1 None"
        by (rule fetched.yielded) (rule fetched.abandoned)
      with y step Raised show ?thesis
        by - (rule exI [of _ "[b]"], rule exI [of _ None], simp)
    qed
  qed
qed

lemma loop_as_list:
  assumes "process_batch_loop env (callback f) g s = Some (out, g', s')"
  shows "\<exists>bs fin. fetched env g bs g' fin \<and>
           (case fin of
              Some oc \<Rightarrow> callback f (concat bs) s = (Returned, s') \<and> out = oc
            | None \<Rightarrow> callback f (concat bs) s = (out, s') \<and> out \<noteq> Returned)"
  using loop_as_list_aux [OF assms refl] by (simp cong: option.case_cong)

lemma list_as_loop:
  assumes "fetched env g bs g' fin"
    and "callback f (concat bs) s = (out, s')"
    and "fin = None \<longrightarrow> out \<noteq> Returned"
  shows "\<exists>g''. process_batch_loop env (callback f) g s
           = Some (if out = Returned then the fin else out, g'', s')"
  using assms
proof (induction arbitrary: s rule: fetched.induct)
  case (exhausted g g')
  then show ?case by (subst process_batch_loop.simps) simp
next
  case (failed g e g')
  then show ?case by (subst process_batch_loop.simps) simp
next
  case (abandoned g)
  then show ?case by simp
next
  case (yielded g b g1 bs g' fin)
  obtain o1 s1 where cb: "callback f b s = (o1, s1)" by (cases "callback f b s")
  show ?case
  proof (cases o1)
    case Returned
    with yielded.prems cb have "callback f (concat bs) s1 = (out, s')"
      by (simp add: callback_append)
    from yielded.IH [OF this yielded.prems(2)] obtain g'' where
      "process_batch_loop env (callback f) g1 s1 = Some (if out = Returned then the fin else out, g'', s')"
      by blast
    with yielded.hyps(1) cb Returned show ?thesis
      by (subst process_batch_loop.simps) simp
  next
    case (Raised e)
    with yielded.prems cb have "out = Raised e" "s' = s1" by (simp_all add: callback_append)
    with yielded.hyps(1) cb Raised show ?thesis
      by (subst process_batch_loop.simps) simp
  qed
qed

section \<open>Running a list of records a second time\<close>

lemma view_logged [simp]: "view (s\<lparr>logged := l\<rparr>) = view s" "durable (s\<lparr>logged := l\<rparr>) = durable s"
  by (simp_all add: view_def durable_def)

lemma callback_single:
  "callback cb [r] s =
     (case cb r s of
        (Returned, s1) \<Rightarrow> (Returned, s1)
      | (Raised e, s1) \<Rightarrow>
          (case e of
             KeyError k \<Rightarrow> (Returned, s1\<lparr>logged := logged s1 @ [invalid_key_error (KeyError k)]\<rparr>)
           | _ \<Rightarrow> (Raised e, s1)))"
  by (simp split: prod.splits outcome.splits py_error.splits)

lemma callback_single_tables:
  "view (snd (callback cb [r] s)) = view (snd (cb r s))"
  "durable (snd (callback cb [r] s)) = durable (snd (cb r s))"
  by (simp_all add: callback_single split: prod.splits outcome.splits py_error.splits)

lemma callback_single_outcome:
  "fst (cb r t) = fst (cb r s) \<Longrightarrow> fst (callback cb [r] t) = fst (callback cb [r] s)"
proof (cases "cb r t"; cases "cb r s")
  fix a b c d
  assume "fst (cb r t) = fst (cb r s)" and "cb r t = (a, b)" and "cb r s = (c, d)"
  then show ?thesis
    by (cases a; cases c) (auto simp: callback_single split: py_error.splits)
qed

lemma callback_single_Returned:
  "fst (cb r s) = Returned \<Longrightarrow> callback cb [r] s = (Returned, snd (cb r s))"
  by (cases "cb r s") (simp add: callback_single)

lemma callback_snoc:
  "callback cb (rs @ [r]) s =
     (case callback cb rs s of
        (Returned, s1) \<Rightarrow> callback cb [r] s1
      | (Raised e, s1) \<Rightarrow> (Raised e, s1))"
  by (rule callback_append)

lemma replay_generic:
  fixes cb :: "pydict \<Rightarrow> session \<Rightarrow> outcome \<times> session" and commits :: "pydict \<Rightarrow> session \<Rightarrow> bool"
  assumes loc: "\<And>r s t. view t = view s \<Longrightarrow> \<not> commits r s \<Longrightarrow>
      fst (cb r t) = fst (cb r s) \<and> view (snd (cb r t)) = view (snd (cb r s))
      \<and> durable (snd (cb r t)) = durable t \<and> durable (snd (cb r s)) = durable s"
    and com: "\<And>r s. commits r s \<Longrightarrow>
      fst (cb r s) = Returned \<and> durable (snd (cb r s)) = view (snd (cb r s))"
    and again: "\<And>rs r s0 sa t. callback cb rs s0 = (Returned, sa) \<Longrightarrow> commits r sa \<Longrightarrow>
      view t = view (snd (cb r sa)) \<Longrightarrow> durable t = view (snd (cb r sa)) \<Longrightarrow>
      \<exists>t1. callback cb (rs @ [r]) t = (Returned, t1) \<and> view t1 = view (snd (cb r sa))
             \<and> durable t1 = view (snd (cb r sa))"
  shows "view s0 = durable s0 \<Longrightarrow> callback cb rs s0 = (o1, s1) \<Longrightarrow>
     view t = durable s1 \<Longrightarrow> durable t = durable s1 \<Longrightarrow>
     \<exists>t1. callback cb rs t = (o1, t1) \<and> view t1 = view s1 \<and> durable t1 = durable s1"
proof (induction rs arbitrary: o1 s1 t rule: rev_induct)
  case Nil
  then show ?case by simp
next
  case (snoc r rs)
  obtain oa sa where run: "callback cb rs s0 = (oa, sa)" by (cases "callback cb rs s0")
  show ?case
  proof (cases oa)
    case (Raised e)
    with run snoc.prems(2) have eq: "o1 = Raised e" "s1 = sa" by (simp_all add: callback_snoc)
    from snoc.IH [OF snoc.prems(1) run, of t] snoc.prems(3,4) eq Raised
    obtain t1 where "callback cb rs t = (Raised e, t1)" "view t1 = view sa" "durable t1 = durable sa"
      by auto
    with eq show ?thesis by (simp add: callback_snoc)
  next
    case Returned
    with run snoc.prems(2) have last: "callback cb [r] sa = (o1, s1)" by (simp add: callback_snoc)
    show ?thesis
    proof (cases "commits r sa")
      case True
      from com [OF True] have ret: "fst (cb r sa) = Returned"
        and dur: "durable (snd (cb r sa)) = view (snd (cb r sa))" by simp_all
      from last have eq: "o1 = Returned" "s1 = snd (cb r sa)"
        unfolding callback_single_Returned [of cb r sa, OF ret] by simp_all
      from run Returned have "callback cb rs s0 = (Returned, sa)" by simp
      from again [OF this True, of t] snoc.prems(3,4) eq dur show ?thesis by simp
    next
      case False
      from loc [OF refl False] have d1: "durable (snd (cb r sa)) = durable sa" by simp
      with last have ds: "durable s1 = durable sa"
        using callback_single_tables(2) [of cb r sa] by simp
      from snoc.IH [OF snoc.prems(1), of oa sa t] run Returned snoc.prems(3,4) ds
      obtain ta where ta: "callback cb rs t = (Returned, ta)" "view ta = view sa"
        "durable ta = durable sa" by auto
      from loc [OF ta(2) False] have
        l: "fst (cb r ta) = fst (cb r sa)" "view (snd (cb r ta)) = view (snd (cb r sa))"
           "durable (snd (cb r ta)) = durable ta" by simp_all
      obtain o2 t1 where st: "callback cb [r] ta = (o2, t1)" by (cases "callback cb [r] ta")
      from callback_single_outcome [of cb r ta sa, OF l(1)] st last have "o2 = o1" by simp
      moreover from st last l(2) have "view t1 = view s1"
        using callback_single_tables(1) [of cb r ta] callback_single_tables(1) [of cb r sa] by simp
      moreover from st l(3) ta(3) ds have "durable t1 = durable s1"
        using callback_single_tables(2) [of cb r ta] by simp
      ultimately show ?thesis using ta(1) st by (simp add: callback_snoc)
    qed
  qed
qed

section \<open>The Member reconciler as a function of the table\<close>

lemma ach_populated_fields:
  "routing_number m = routing_number m' \<Longrightarrow> account_number m = account_number m' \<Longrightarrow>
   ach_populated m = ach_populated m'"
  by (simp add: ach_populated_def split: sum.splits)

lemma overwrite_member_outcome:
  "fst (overwrite_member env r k st m) = fst (overwrite_member env r k' st' m')"
  by (simp add: overwrite_member_def Let_def ach_populated_def
      split: option.splits sum.splits pyval.splits)

lemma overwrite_member_id [simp]:
  "nexudus_user_id (snd (overwrite_member env r k st m)) = k"
  by (simp add: overwrite_member_def Let_def split: option.splits sum.splits pyval.splits)

lemma filter_neq_id:
  "filter (\<lambda>m. nexudus_user_id m = k) ms = [] \<Longrightarrow> filter (\<lambda>m. nexudus_user_id m \<noteq> k) ms = ms"
  by (induction ms) (auto split: if_splits)

lemma member_step:
  "fst (add_or_overwrite_member env r s) = member_outcome env r"
  "members (snd (add_or_overwrite_member env r s)) = member_view env r (members s)"
  "invoices (snd (add_or_overwrite_member env r s)) = invoices s"
  "committed_members (snd (add_or_overwrite_member env r s)) =
     (if member_outcome env r = Returned then member_view env r (members s)
      else committed_members s)"
  "committed_invoices (snd (add_or_overwrite_member env r s)) =
     (if member_outcome env r = Returned then invoices s else committed_invoices s)"
proof -
  let ?goal = "fst (add_or_overwrite_member env r s) = member_outcome env r
    \<and> members (snd (add_or_overwrite_member env r s)) = member_view env r (members s)
    \<and> invoices (snd (add_or_overwrite_member env r s)) = invoices s
    \<and> committed_members (snd (add_or_overwrite_member env r s)) =
     (if member_outcome env r = Returned then member_view env r (members s)
      else committed_members s)
    \<and> committed_invoices (snd (add_or_overwrite_member env r s)) =
     (if member_outcome env r = Returned then invoices s else committed_invoices s)"
  have ?goal
  proof (cases "r ''Id''")
    case None
    then show ?thesis
      by (simp add: add_or_overwrite_member_def member_outcome_def member_view_def)
  next
    case (Some k)
    show ?thesis
    proof (cases "filter (\<lambda>m. nexudus_user_id m = k) (members s)")
      case Nil
      obtain res m where ow: "overwrite_member env r k False new_Member = (res, m)"
        by (cases "overwrite_member env r k False new_Member")
      with Some Nil show ?thesis
        by (cases res)
          (simp_all add: add_member_new member_outcome_def member_view_def commit_def filter_neq_id)
    next
      case (Cons m0 rest)
      show ?thesis
      proof (cases rest)
        case Nil
        obtain res m where ow: "overwrite_member env r k True m0 = (res, m)"
          by (cases "overwrite_member env r k True m0")
        moreover from ow have "fst (overwrite_member env r k False new_Member) = res"
          using overwrite_member_outcome [of env r k False new_Member k True m0] by simp
        ultimately show ?thesis using Some Cons Nil
          by (cases res)
            (simp_all add: add_member_found member_outcome_def member_view_def commit_def)
      next
        case (Cons m1 rest')
        obtain res m where ow: "overwrite_member env r k False new_Member = (res, m)"
          by (cases "overwrite_member env r k False new_Member")
        with Some \<open>filter (\<lambda>m. nexudus_user_id m = k) (members s) = m0 # rest\<close> Cons
        show ?thesis
          by (cases res)
            (simp_all add: add_member_multiple member_outcome_def member_view_def commit_def Let_def)
      qed
    qed
  qed
  then show
    "fst (add_or_overwrite_member env r s) = member_outcome env r"
    "members (snd (add_or_overwrite_member env r s)) = member_view env r (members s)"
    "invoices (snd (add_or_overwrite_member env r s)) = invoices s"
    "committed_members (snd (add_or_overwrite_member env r s)) =
       (if member_outcome env r = Returned then member_view env r (members s)
        else committed_members s)"
    "committed_invoices (snd (add_or_overwrite_member env r s)) =
       (if member_outcome env r = Returned then invoices s else committed_invoices s)"
    by simp_all
qed

section \<open>What a record does to a stored Member row\<close>

lemma ow_fullname:
  "fullname (snd (overwrite_member env r k st x)) =
     (case r ''FullName'' of None \<Rightarrow> fullname x | Some v \<Rightarrow> v)"
  by (simp add: overwrite_member_def Let_def split: option.splits sum.splits pyval.splits)

lemma ow_billing_name:
  "billing_name (snd (overwrite_member env r k st x)) =
     (case r ''FullName'' of None \<Rightarrow> billing_name x | Some fn \<Rightarrow>
      (case r ''BillingName'' of None \<Rightarrow> billing_name x | Some bn \<Rightarrow>
         if truthy bn then bn else fn))"
  by (simp add: overwrite_member_def Let_def split: option.splits sum.splits pyval.splits)

lemma ow_email:
  "email (snd (overwrite_member env r k st x)) =
     (case r ''FullName'' of None \<Rightarrow> email x | Some fn \<Rightarrow>
      (case r ''BillingName'' of None \<Rightarrow> email x | Some bn \<Rightarrow>
      (case r ''Email'' of None \<Rightarrow> email x | Some em \<Rightarrow> em)))"
  by (simp add: overwrite_member_def Let_def split: option.splits sum.splits pyval.splits)

lemma ow_routing_number:
  "routing_number (snd (overwrite_member env r k st x)) =
     (case r ''FullName'' of None \<Rightarrow> routing_number x | Some fn \<Rightarrow>
      (case r ''BillingName'' of None \<Rightarrow> routing_number x | Some bn \<Rightarrow>
      (case r ''Email'' of None \<Rightarrow> routing_number x | Some em \<Rightarrow>
      (case r ''BankBranch'' of None \<Rightarrow> routing_number x | Some bb \<Rightarrow> bb))))"
  by (simp add: overwrite_member_def Let_def split: option.splits sum.splits pyval.splits)

lemma ow_account_number:
  "account_number (snd (overwrite_member env r k st x)) =
     (case r ''FullName'' of None \<Rightarrow> account_number x | Some fn \<Rightarrow>
      (case r ''BillingName'' of None \<Rightarrow> account_number x | Some bn \<Rightarrow>
      (case r ''Email'' of None \<Rightarrow> account_number x | Some em \<Rightarrow>
      (case r ''BankBranch'' of None \<Rightarrow> account_number x | Some bb \<Rightarrow>
      (case r ''BankAccount'' of None \<Rightarrow> account_number x | Some ba \<Rightarrow> ba)))))"
  by (simp add: overwrite_member_def Let_def split: option.splits sum.splits pyval.splits)

lemma ow_process_automatically:
  "process_automatically (snd (overwrite_member env r k st x)) =
     (case r ''FullName'' of None \<Rightarrow> process_automatically x | Some fn \<Rightarrow>
      (case r ''BillingName'' of None \<Rightarrow> process_automatically x | Some bn \<Rightarrow>
      (case r ''Email'' of None \<Rightarrow> process_automatically x | Some em \<Rightarrow>
      (case r ''BankBranch'' of None \<Rightarrow> process_automatically x | Some bb \<Rightarrow>
      (case r ''BankAccount'' of None \<Rightarrow> process_automatically x | Some ba \<Rightarrow>
      (case ach_populated (new_Member\<lparr>routing_number := bb, account_number := ba\<rparr>) of
         Inl e \<Rightarrow> process_automatically x
       | Inr populated \<Rightarrow>
           if populated
           then (if st then process_automatically x else Some (PROCESS_AUTOMATICALLY env))
           else Some False))))))"
  by (simp add: overwrite_member_def Let_def ach_populated_def
      split: option.splits sum.splits pyval.splits)

lemmas ow_fields = ow_fullname ow_billing_name ow_email ow_routing_number ow_account_number
  ow_process_automatically

lemma keeps_or_sets_stored:
  "keeps_or_sets k fullname (\<lambda>x. snd (overwrite_member env r k True x))"
  "keeps_or_sets k billing_name (\<lambda>x. snd (overwrite_member env r k True x))"
  "keeps_or_sets k email (\<lambda>x. snd (overwrite_member env r k True x))"
  "keeps_or_sets k routing_number (\<lambda>x. snd (overwrite_member env r k True x))"
  "keeps_or_sets k account_number (\<lambda>x. snd (overwrite_member env r k True x))"
  unfolding keeps_or_sets_def ow_fields
  by (cases "r ''FullName''"; cases "r ''BillingName''"; cases "r ''Email''";
      cases "r ''BankBranch''"; cases "r ''BankAccount''"; simp; blast)+

lemma keeps_or_sets_stored_pa:
  "keeps_or_sets k process_automatically (\<lambda>x. snd (overwrite_member env r k True x))"
  unfolding keeps_or_sets_def ow_fields
proof (cases "r ''FullName''"; cases "r ''BillingName''"; cases "r ''Email''";
      cases "r ''BankBranch''"; cases "r ''BankAccount''"; simp)
  fix bb ba
  show "(\<forall>x. nexudus_user_id x = k \<longrightarrow>
            (case ach_populated (new_Member\<lparr>routing_number := bb, account_number := ba\<rparr>) of
               Inl e \<Rightarrow> process_automatically x
             | Inr populated \<Rightarrow> if populated then process_automatically x else Some False) =
            process_automatically x) \<or>
        (\<exists>c. \<forall>x. nexudus_user_id x = k \<longrightarrow>
            (case ach_populated (new_Member\<lparr>routing_number := bb, account_number := ba\<rparr>) of
               Inl e \<Rightarrow> process_automatically x
             | Inr populated \<Rightarrow> if populated then process_automatically x else Some False) = c)"
    by (cases "ach_populated (new_Member\<lparr>routing_number := bb, account_number := ba\<rparr>)")
      auto
qed

lemma keeps_or_sets_id: "keeps_or_sets k sel (\<lambda>x. x)"
  by (simp add: keeps_or_sets_def)

lemma keeps_or_sets_comp:
  assumes idP: "\<forall>x. nexudus_user_id x = k \<longrightarrow> nexudus_user_id (P x) = k"
    and P: "keeps_or_sets k sel P" and Q: "keeps_or_sets k sel Q"
  shows "keeps_or_sets k sel (\<lambda>x. Q (P x))"
proof -
  from Q consider
    (keeps) "\<forall>x. nexudus_user_id x = k \<longrightarrow> sel (Q x) = sel x" |
    (sets) c where "\<forall>x. nexudus_user_id x = k \<longrightarrow> sel (Q x) = c"
    unfolding keeps_or_sets_def by blast
  then show ?thesis
  proof cases
    case keeps
    with idP have "\<forall>x. nexudus_user_id x = k \<longrightarrow> sel (Q (P x)) = sel (P x)" by simp
    with P show ?thesis unfolding keeps_or_sets_def by auto
  next
    case sets
    with idP have "\<forall>x. nexudus_user_id x = k \<longrightarrow> sel (Q (P x)) = c" by simp
    then show ?thesis unfolding keeps_or_sets_def by blast
  qed
qed

lemma patch_on_id: "patch_on k (\<lambda>x. x)"
  by (simp add: patch_on_def keeps_or_sets_id)

lemma patch_on_comp:
  assumes P: "patch_on k P" and Q: "patch_on k Q"
  shows "patch_on k (\<lambda>x. Q (P x))"
proof -
  from P have idP: "\<forall>x. nexudus_user_id x = k \<longrightarrow> nexudus_user_id (P x) = k"
    by (simp add: patch_on_def)
  from Q have idQ: "\<forall>x. nexudus_user_id x = k \<longrightarrow> nexudus_user_id (Q x) = k"
    by (simp add: patch_on_def)
  have c: "\<And>sel :: member \<Rightarrow> 'b. keeps_or_sets k sel P \<Longrightarrow> keeps_or_sets k sel Q \<Longrightarrow>
      keeps_or_sets k sel (\<lambda>x. Q (P x))"
    by (rule keeps_or_sets_comp [OF idP])
  from P Q have "keeps_or_sets k fullname (\<lambda>x. Q (P x))"
    by (simp add: patch_on_def c)
  moreover from P Q have "keeps_or_sets k billing_name (\<lambda>x. Q (P x))"
    by (simp add: patch_on_def c)
  moreover from P Q have "keeps_or_sets k email (\<lambda>x. Q (P x))"
    by (simp add: patch_on_def c)
  moreover from P Q have "keeps_or_sets k routing_number (\<lambda>x. Q (P x))"
    by (simp add: patch_on_def c)
  moreover from P Q have "keeps_or_sets k account_number (\<lambda>x. Q (P x))"
    by (simp add: patch_on_def c)
  moreover from P Q have "keeps_or_sets k process_automatically (\<lambda>x. Q (P x))"
    by (simp add: patch_on_def c)
  moreover from idP idQ have "\<forall>x. nexudus_user_id x = k \<longrightarrow> nexudus_user_id (Q (P x)) = k"
    by simp
  ultimately show ?thesis by (simp add: patch_on_def)
qed

lemma patch_on_stored_update: "patch_on k (stored_update env r)"
proof (cases "r ''Id''")
  case None
  then have "stored_update env r = (\<lambda>x. x)" by (simp add: stored_update_def fun_eq_iff)
  then show ?thesis by (simp add: patch_on_id)
next
  case (Some k')
  show ?thesis
  proof (cases "k' = k")
    case True
    have "patch_on k (\<lambda>x. snd (overwrite_member env r k True x))"
      by (simp add: patch_on_def keeps_or_sets_stored keeps_or_sets_stored_pa)
    moreover have "\<And>x. nexudus_user_id x = k \<Longrightarrow>
        stored_update env r x = snd (overwrite_member env r k True x)"
      using Some True by (simp add: stored_update_def)
    ultimately show ?thesis by (simp add: patch_on_def keeps_or_sets_def)
  next
    case False
    with Some have "\<And>x. nexudus_user_id x = k \<Longrightarrow> stored_update env r x = x"
      by (simp add: stored_update_def)
    then show ?thesis by (simp add: patch_on_def keeps_or_sets_def)
  qed
qed

lemma patch_on_fold: "patch_on k (fold (stored_update env) rs)"
proof (induction rs)
  case Nil
  show ?case by (simp add: id_def patch_on_id)
next
  case (Cons r rs)
  from patch_on_comp [OF patch_on_stored_update Cons.IH] show ?case
    by (simp add: comp_def)
qed

lemma absorb_field:
  assumes P: "keeps_or_sets k sel P" and U: "keeps_or_sets k sel U"
    and idP: "\<forall>x. nexudus_user_id x = k \<longrightarrow> nexudus_user_id (P x) = k"
    and idU: "\<forall>x. nexudus_user_id x = k \<longrightarrow> nexudus_user_id (U x) = k"
    and y: "nexudus_user_id y = k" and fixed: "P y = y"
  shows "sel (U (P (U y))) = sel (U y)"
proof -
  from y idU have uy: "nexudus_user_id (U y) = k" by simp
  with idP have puy: "nexudus_user_id (P (U y)) = k" by simp
  from U consider
    (keeps) "\<forall>x. nexudus_user_id x = k \<longrightarrow> sel (U x) = sel x" |
    (sets) c where "\<forall>x. nexudus_user_id x = k \<longrightarrow> sel (U x) = c"
    unfolding keeps_or_sets_def by blast
  then show ?thesis
  proof cases
    case sets
    with y puy show ?thesis by simp
  next
    case keeps
    with y puy have l: "sel (U (P (U y))) = sel (P (U y))" and r: "sel (U y) = sel y"
      by simp_all
    from P consider
      (pkeeps) "\<forall>x. nexudus_user_id x = k \<longrightarrow> sel (P x) = sel x" |
      (psets) c where "\<forall>x. nexudus_user_id x = k \<longrightarrow> sel (P x) = c"
      unfolding keeps_or_sets_def by blast
    then show ?thesis
    proof cases
      case pkeeps
      with uy l r show ?thesis by simp
    next
      case psets
      with uy have "sel (P (U y)) = c" by simp
      moreover from psets y have "sel (P y) = c" by simp
      ultimately show ?thesis using l r fixed by simp
    qed
  qed
qed

lemma absorb:
  fixes y :: member
  assumes "patch_on k P" and "patch_on k U" and "nexudus_user_id y = k" and "P y = y"
  shows "U (P (U y)) = U y"
proof -
  from assms(1) have P: "\<forall>x. nexudus_user_id x = k \<longrightarrow> nexudus_user_id (P x) = k"
    by (simp add: patch_on_def)
  from assms(2) have U: "\<forall>x. nexudus_user_id x = k \<longrightarrow> nexudus_user_id (U x) = k"
    by (simp add: patch_on_def)
  have f: "\<And>sel :: member \<Rightarrow> 'b. keeps_or_sets k sel P \<Longrightarrow> keeps_or_sets k sel U \<Longrightarrow>
      sel (U (P (U y))) = sel (U y)"
    by (rule absorb_field [OF _ _ P U assms(3,4)])
  show ?thesis
  proof (rule member.equality)
    from P U assms(3) show "nexudus_user_id (U (P (U y))) = nexudus_user_id (U y)" by simp
    from assms(1,2) show "fullname (U (P (U y))) = fullname (U y)"
      by (intro f) (simp_all add: patch_on_def)
    from assms(1,2) show "billing_name (U (P (U y))) = billing_name (U y)"
      by (intro f) (simp_all add: patch_on_def)
    from assms(1,2) show "email (U (P (U y))) = email (U y)"
      by (intro f) (simp_all add: patch_on_def)
    from assms(1,2) show "routing_number (U (P (U y))) = routing_number (U y)"
      by (intro f) (simp_all add: patch_on_def)
    from assms(1,2) show "account_number (U (P (U y))) = account_number (U y)"
      by (intro f) (simp_all add: patch_on_def)
    from assms(1,2) show "process_automatically (U (P (U y))) = process_automatically (U y)"
      by (intro f) (simp_all add: patch_on_def)
  qed simp
qed

section \<open>Rows per key in the Member table\<close>

lemma member_view_no_id: "r ''Id'' = None \<Longrightarrow> member_view env r ms = ms"
  by (simp add: member_view_def)

lemma member_view_found:
  "r ''Id'' = Some k \<Longrightarrow> filter (\<lambda>m. nexudus_user_id m = k) ms = [m0] \<Longrightarrow>
   member_view env r ms = map (stored_update env r) ms"
proof -
  assume id: "r ''Id'' = Some k" and one: "filter (\<lambda>m. nexudus_user_id m = k) ms = [m0]"
  have "\<And>x. x \<in> set ms \<Longrightarrow> nexudus_user_id x = k \<Longrightarrow> x = m0"
  proof -
    fix x assume "x \<in> set ms" and "nexudus_user_id x = k"
    then have "x \<in> set (filter (\<lambda>m. nexudus_user_id m = k) ms)" by simp
    with one show "x = m0" by simp
  qed
  with id one show ?thesis
    by (auto simp: member_view_def stored_update_def)
qed

lemma member_view_new:
  "r ''Id'' = Some k \<Longrightarrow> length (filter (\<lambda>m. nexudus_user_id m = k) ms) \<noteq> 1 \<Longrightarrow>
   member_view env r ms =
     filter (\<lambda>m. nexudus_user_id m \<noteq> k) ms @ [snd (overwrite_member env r k False new_Member)]"
  by (cases "filter (\<lambda>m. nexudus_user_id m = k) ms" rule: one_or_none.cases)
    (simp_all add: member_view_def)

lemma stored_update_id [simp]: "nexudus_user_id (stored_update env r x) = nexudus_user_id x"
  by (simp add: stored_update_def split: option.splits)

lemma fold_stored_update_id [simp]:
  "nexudus_user_id (fold (stored_update env) rs x) = nexudus_user_id x"
  by (induction rs arbitrary: x) simp_all

lemma length_one_conv: "length xs = Suc 0 \<longleftrightarrow> (\<exists>x. xs = [x])"
  by (cases xs) auto

text \<open>After a record with an Id, the table has one row for it; other keys keep their rows.\<close>

lemma member_view_rows_same:
  "r ''Id'' = Some k \<Longrightarrow>
   length (filter (\<lambda>m. nexudus_user_id m = k) (member_view env r ms)) = 1"
proof (cases "length (filter (\<lambda>m. nexudus_user_id m = k) ms) = 1")
  case True
  assume id: "r ''Id'' = Some k"
  from True obtain m0 where "filter (\<lambda>m. nexudus_user_id m = k) ms = [m0]"
    by (auto simp: length_one_conv)
  with id show ?thesis
    by (simp add: member_view_found filter_map comp_def)
next
  case False
  assume "r ''Id'' = Some k"
  with False show ?thesis by (simp add: member_view_new)
qed

lemma member_view_rows_other:
  "r ''Id'' \<noteq> Some k \<Longrightarrow>
   length (filter (\<lambda>m. nexudus_user_id m = k) (member_view env r ms)) =
   length (filter (\<lambda>m. nexudus_user_id m = k) ms)"
proof (cases "r ''Id''")
  case None
  then show ?thesis by (simp add: member_view_no_id)
next
  case (Some k')
  assume "r ''Id'' \<noteq> Some k"
  with Some have ne: "k' \<noteq> k" by simp
  show ?thesis
  proof (cases "length (filter (\<lambda>m. nexudus_user_id m = k') ms) = 1")
    case True
    then obtain m0 where "filter (\<lambda>m. nexudus_user_id m = k') ms = [m0]"
      by (auto simp: length_one_conv)
    with Some show ?thesis by (simp add: member_view_found filter_map comp_def)
  next
    case False
    have "filter (\<lambda>m. nexudus_user_id m = k) (filter (\<lambda>m. nexudus_user_id m \<noteq> k') ms)
        = filter (\<lambda>m. nexudus_user_id m = k) ms"
      using ne by (auto intro: filter_cong)
    with Some False ne show ?thesis by (simp add: member_view_new)
  qed
qed

lemma overwrite_member_twice:
  "snd (overwrite_member env r k True (snd (overwrite_member env r k False m)))
     = snd (overwrite_member env r k False m)"
  by (rule member.equality) (simp_all add: ow_fields split: option.splits sum.splits)

lemma fold_stored_update_other:
  "\<forall>r\<in>set rs. r ''Id'' \<noteq> Some (nexudus_user_id x) \<Longrightarrow> fold (stored_update env) rs x = x"
proof (induction rs)
  case Nil
  show ?case by simp
next
  case (Cons r rs)
  then have "stored_update env r x = x"
    by (auto simp: stored_update_def split: option.splits)
  with Cons show ?case by simp
qed

lemma settled_members_step:
  assumes I: "settled_members env rs w"
  shows "settled_members env (rs @ [r]) (member_view env r w)"
proof (cases "r ''Id''")
  case None
  then have "stored_update env r = (\<lambda>x. x)" by (simp add: stored_update_def fun_eq_iff)
  with I None show ?thesis by (simp add: settled_members_def member_view_no_id)
next
  case (Some k)
  have counts: "\<forall>r'\<in>set (rs @ [r]). \<forall>k'. r' ''Id'' = Some k' \<longrightarrow>
      length (filter (\<lambda>m. nexudus_user_id m = k') (member_view env r w)) = 1"
  proof (intro ballI allI impI)
    fix r' k' assume r': "r' \<in> set (rs @ [r])" and id': "r' ''Id'' = Some k'"
    show "length (filter (\<lambda>m. nexudus_user_id m = k') (member_view env r w)) = 1"
    proof (cases "k' = k")
      case True
      with Some show ?thesis by (simp add: member_view_rows_same)
    next
      case False
      with Some id' r' have "r' \<in> set rs" by auto
      with I id' have "length (filter (\<lambda>m. nexudus_user_id m = k') w) = 1"
        by (simp add: settled_members_def)
      moreover from False Some have "r ''Id'' \<noteq> Some k'" by simp
      ultimately show ?thesis by (simp add: member_view_rows_other)
    qed
  qed
  have rows: "\<forall>x\<in>set (member_view env r w). fold (stored_update env) (rs @ [r]) x = x"
  proof (cases "length (filter (\<lambda>m. nexudus_user_id m = k) w) = 1")
    case True
    then obtain m0 where "filter (\<lambda>m. nexudus_user_id m = k) w = [m0]"
      by (auto simp: length_one_conv)
    with Some have mv: "member_view env r w = map (stored_update env r) w"
      by (simp add: member_view_found)
    show ?thesis
    proof
      fix x assume "x \<in> set (member_view env r w)"
      with mv obtain y where y: "y \<in> set w" and x: "x = stored_update env r y" by auto
      from I y have "fold (stored_update env) rs y = y" by (simp add: settled_members_def)
      with absorb [of "nexudus_user_id y" "fold (stored_update env) rs" "stored_update env r" y]
      have "stored_update env r (fold (stored_update env) rs (stored_update env r y))
          = stored_update env r y"
        by (simp add: patch_on_fold patch_on_stored_update)
      with x show "fold (stored_update env) (rs @ [r]) x = x" by simp
    qed
  next
    case False
    let ?n = "snd (overwrite_member env r k False new_Member)"
    from Some False have mv: "member_view env r w =
        filter (\<lambda>m. nexudus_user_id m \<noteq> k) w @ [?n]"
      by (simp add: member_view_new)
    from I False have none: "\<forall>r'\<in>set rs. r' ''Id'' \<noteq> Some k"
      by (auto simp: settled_members_def)
    show ?thesis
    proof
      fix x assume "x \<in> set (member_view env r w)"
      with mv consider (old) "x \<in> set w" "nexudus_user_id x \<noteq> k" | (new) "x = ?n" by auto
      then show "fold (stored_update env) (rs @ [r]) x = x"
      proof cases
        case old
        with I have "fold (stored_update env) rs x = x" by (simp add: settled_members_def)
        moreover from old Some have "stored_update env r x = x" by (simp add: stored_update_def)
        ultimately show ?thesis by simp
      next
        case new
        from none have "fold (stored_update env) rs ?n = ?n"
          by (intro fold_stored_update_other) simp
        moreover from Some have "stored_update env r ?n = ?n"
          by (simp add: stored_update_def overwrite_member_twice)
        ultimately show ?thesis using new by simp
      qed
    qed
  qed
  from counts rows show ?thesis unfolding settled_members_def by blast
qed

lemma settled_members_fold:
  "settled_members env rs (fold (member_view env) rs ms)"
proof (induction rs rule: rev_induct)
  case Nil
  show ?case by (simp add: settled_members_def)
next
  case (snoc r rs)
  from settled_members_step [OF snoc.IH, of r] show ?case by simp
qed
lemma fold_member_view_settled:
  "\<forall>r\<in>set rs. \<forall>k. r ''Id'' = Some k \<longrightarrow> length (filter (\<lambda>m. nexudus_user_id m = k) ms) = 1
   \<Longrightarrow> fold (member_view env) rs ms = map (fold (stored_update env) rs) ms"
proof (induction rs arbitrary: ms)
  case Nil
  show ?case by simp
next
  case (Cons r rs)
  have mv: "member_view env r ms = map (stored_update env r) ms"
  proof (cases "r ''Id''")
    case None
    then have "stored_update env r = (\<lambda>x. x)" by (simp add: stored_update_def fun_eq_iff)
    with None show ?thesis by (simp add: member_view_no_id)
  next
    case (Some k)
    with Cons.prems have "length (filter (\<lambda>m. nexudus_user_id m = k) ms) = 1" by simp
    then obtain m0 where "filter (\<lambda>m. nexudus_user_id m = k) ms = [m0]"
      by (auto simp: length_one_conv)
    with Some show ?thesis by (simp add: member_view_found)
  qed
  have "\<forall>r'\<in>set rs. \<forall>k. r' ''Id'' = Some k \<longrightarrow>
      length (filter (\<lambda>m. nexudus_user_id m = k) (map (stored_update env r) ms)) = 1"
    using Cons.prems by (simp add: filter_map comp_def)
  from Cons.IH [OF this] mv show ?case by (simp add: comp_def)
qed

lemma member_view_idem:
  "fold (member_view env) rs (fold (member_view env) rs ms) = fold (member_view env) rs ms"
proof -
  let ?w = "fold (member_view env) rs ms"
  from settled_members_fold [of env rs ms] have
    counts: "\<forall>r\<in>set rs. \<forall>k. r ''Id'' = Some k \<longrightarrow>
      length (filter (\<lambda>m. nexudus_user_id m = k) ?w) = 1"
    and rows: "\<forall>x\<in>set ?w. fold (stored_update env) rs x = x"
    by (simp_all add: settled_members_def)
  from fold_member_view_settled [OF counts]
  have "fold (member_view env) rs ?w = map (fold (stored_update env) rs) ?w" .
  also from rows have "\<dots> = ?w" by (simp add: map_idI)
  finally show ?thesis .
qed

lemma callback_member_outcome:
  "fst (callback (add_or_overwrite_member env) rs s)
     = fst (callback (add_or_overwrite_member env) rs t)"
proof (induction rs arbitrary: s t)
  case Nil
  show ?case by simp
next
  case (Cons r rs)
  obtain o1 s1 where s: "add_or_overwrite_member env r s = (o1, s1)"
    by (cases "add_or_overwrite_member env r s")
  obtain o2 t1 where t: "add_or_overwrite_member env r t = (o2, t1)"
    by (cases "add_or_overwrite_member env r t")
  from s t member_step(1) [of env r s] member_step(1) [of env r t] have eq: "o2 = o1" by simp
  show ?case
  proof (cases o1)
    case Returned
    with s t eq Cons.IH [of s1 t1] show ?thesis by simp
  next
    case (Raised e)
    with s t eq Cons.IH show ?thesis by (cases e) simp_all
  qed
qed

lemma callback_member_view:
  "fst (callback (add_or_overwrite_member env) rs s) = Returned \<Longrightarrow>
   view (snd (callback (add_or_overwrite_member env) rs s))
     = (fold (member_view env) rs (members s), invoices s)"
proof (induction rs arbitrary: s)
  case Nil
  show ?case by (simp add: view_def)
next
  case (Cons r rs)
  obtain o1 s1 where s: "add_or_overwrite_member env r s = (o1, s1)"
    by (cases "add_or_overwrite_member env r s")
  with member_step(2,3) [of env r s]
  have s1: "members s1 = member_view env r (members s)" "invoices s1 = invoices s" by simp_all
  show ?case
  proof (cases o1)
    case Returned
    with s Cons.prems Cons.IH [of s1] s1 show ?thesis by simp
  next
    case (Raised e)
    show ?thesis
    proof (cases e)
      case (KeyError k)
      let ?s1 = "s1\<lparr>logged := logged s1 @ [invalid_key_error (KeyError k)]\<rparr>"
      from s Raised KeyError Cons.prems
      have "fst (callback (add_or_overwrite_member env) rs ?s1) = Returned" by simp
      from Cons.IH [OF this] s Raised KeyError s1 show ?thesis by simp
    qed (use s Raised Cons.prems in simp_all)
  qed
qed
lemma member_step_tables:
  "view (snd (add_or_overwrite_member env r s)) = (member_view env r (members s), invoices s)"
  "durable (snd (add_or_overwrite_member env r s)) =
     (if member_outcome env r = Returned then (member_view env r (members s), invoices s)
      else durable s)"
  by (simp_all add: view_def durable_def member_step)

theorem member_replay:
  assumes "view s0 = durable s0"
    and "callback (add_or_overwrite_member env) rs s0 = (o1, s1)"
    and "view t = durable s1" and "durable t = durable s1"
  shows "\<exists>t1. callback (add_or_overwrite_member env) rs t = (o1, t1)
           \<and> view t1 = view s1 \<and> durable t1 = durable s1"
proof (rule replay_generic [where commits = "\<lambda>r s. member_outcome env r = Returned",
      OF _ _ _ assms])
  fix r s t
  assume "view t = view s" and "member_outcome env r \<noteq> Returned"
  then show "fst (add_or_overwrite_member env r t) = fst (add_or_overwrite_member env r s) \<and>
       view (snd (add_or_overwrite_member env r t)) = view (snd (add_or_overwrite_member env r s)) \<and>
       durable (snd (add_or_overwrite_member env r t)) = durable t \<and>
       durable (snd (add_or_overwrite_member env r s)) = durable s"
    by (simp add: member_step_tables member_step(1)) (simp add: view_def)
next
  fix r s
  assume "member_outcome env r = Returned"
  then show "fst (add_or_overwrite_member env r s) = Returned \<and>
       durable (snd (add_or_overwrite_member env r s)) = view (snd (add_or_overwrite_member env r s))"
    by (simp add: member_step_tables member_step(1))
next
  fix rs r s0 sa t
  let ?cb = "add_or_overwrite_member env"
  assume run: "callback ?cb rs s0 = (Returned, sa)"
    and ret: "member_outcome env r = Returned"
    and vt: "view t = view (snd (?cb r sa))"
    and dt: "durable t = view (snd (?cb r sa))"
  from ret have last: "callback ?cb [r] sa = (Returned, snd (?cb r sa))"
    by (intro callback_single_Returned) (simp add: member_step(1))
  with run have whole: "callback ?cb (rs @ [r]) s0 = (Returned, snd (?cb r sa))"
    by (simp add: callback_snoc)
  then have "fst (callback ?cb (rs @ [r]) s0) = Returned" by simp
  with callback_member_outcome [of env "rs @ [r]" t s0]
  have rt: "fst (callback ?cb (rs @ [r]) t) = Returned" by simp
  obtain t1 where t1: "callback ?cb (rs @ [r]) t = (Returned, t1)"
    using rt by (cases "callback ?cb (rs @ [r]) t") simp
  from callback_member_view [of env "rs @ [r]" s0] whole
  have v1: "view (snd (?cb r sa)) = (fold (member_view env) (rs @ [r]) (members s0), invoices s0)"
    by simp
  with vt have mt: "members t = fold (member_view env) (rs @ [r]) (members s0)"
    and it: "invoices t = invoices s0" by (simp_all add: view_def)
  from callback_member_view [OF rt] t1
  have "view t1 = (fold (member_view env) (rs @ [r]) (members t), invoices t)" by simp
  with mt it member_view_idem [of env "rs @ [r]" "members s0"] v1
  have vt1: "view t1 = view (snd (?cb r sa))" by simp
  obtain oa ta where ra: "callback ?cb rs t = (oa, ta)" by (cases "callback ?cb rs t")
  with t1 have "oa = Returned" by (cases oa) (simp_all add: callback_snoc)
  with ra t1 have "callback ?cb [r] ta = (Returned, t1)" by (simp add: callback_snoc)
  moreover from ret have "callback ?cb [r] ta = (Returned, snd (?cb r ta))"
    by (intro callback_single_Returned) (simp add: member_step(1))
  ultimately have "t1 = snd (?cb r ta)" by simp
  with ret have "durable t1 = view t1" by (simp add: member_step_tables)
  with vt1 t1 show "\<exists>t1. callback ?cb (rs @ [r]) t = (Returned, t1) \<and>
       view t1 = view (snd (?cb r sa)) \<and> durable t1 = view (snd (?cb r sa))" by simp
qed
lemma new_session_tables [simp]:
  "view (new_session s) = durable s" "durable (new_session s) = durable s"
  by (simp_all add: view_def durable_def new_session_def)

lemma sync_table_twice:
  assumes replay: "\<And>rs s0 o1 s1 t. view s0 = durable s0 \<Longrightarrow> callback cb rs s0 = (o1, s1) \<Longrightarrow>
      view t = durable s1 \<Longrightarrow> durable t = durable s1 \<Longrightarrow>
      \<exists>t1. callback cb rs t = (o1, t1) \<and> view t1 = view s1 \<and> durable t1 = durable s1"
    and run: "sync_table env sm space cb payload url_part business_var = Some (out, g, s1)"
  shows "\<exists>g2 s2. sync_table env s1 space cb payload url_part business_var = Some (out, g2, s2)
           \<and> durable s2 = durable s1"
proof -
  let ?g0 = "get_records env url_part (payload(business_var \<mapsto> space)) False"
  from run have loop: "process_batch_loop env (callback cb) ?g0 (new_session sm) = Some (out, g, s1)"
    by (simp add: sync_table_def process_batch_def)
  from loop_as_list [OF loop] obtain bs fin where
    f: "fetched env ?g0 bs g fin" and
    c: "case fin of
          Some oc \<Rightarrow> callback cb (concat bs) (new_session sm) = (Returned, s1) \<and> out = oc
        | None \<Rightarrow> callback cb (concat bs) (new_session sm) = (out, s1) \<and> out \<noteq> Returned"
    by blast
  obtain o1 where first: "callback cb (concat bs) (new_session sm) = (o1, s1)"
    and o1: "if o1 = Returned then fin \<noteq> None \<and> out = the fin else fin = None \<and> out = o1"
    using c by (cases fin) auto
  from replay [OF _ first, of "new_session s1"] obtain t1 where
    second: "callback cb (concat bs) (new_session s1) = (o1, t1)" and d: "durable t1 = durable s1"
    by auto
  from o1 have "fin = None \<longrightarrow> o1 \<noteq> Returned" by auto
  from list_as_loop [OF f second this] obtain g2 where
    "process_batch_loop env (callback cb) ?g0 (new_session s1)
       = Some (if o1 = Returned then the fin else o1, g2, t1)" by blast
  moreover from o1 have "(if o1 = Returned then the fin else o1) = out" by (auto split: if_splits)
  ultimately have "sync_table env s1 space cb payload url_part business_var = Some (out, g2, t1)"
    by (simp add: sync_table_def process_batch_def)
  with d show ?thesis by blast
qed

section \<open>The Invoice reconciler as a function of the tables\<close>

lemma member_gate_result: "fst (member_gate r s) = gate_result r (members s)"
  by (simp add: member_gate_def gate_result_def split: option.splits sum.splits)

lemma filter_neq_invoice:
  "filter (\<lambda>i. nexudus_invoice_id i = k) is = [] \<Longrightarrow>
   filter (\<lambda>i. nexudus_invoice_id i \<noteq> k) is = is"
  by (induction "is") (auto split: if_splits)

lemma invoice_step_ungated:
  assumes g: "member_gate r s = (Inr False, s0)"
  shows "fst (add_or_overwrite_invoice env r s) = invoice_outcome env r (members s) (invoices s)
    \<and> members (snd (add_or_overwrite_invoice env r s)) = members s
    \<and> invoices (snd (add_or_overwrite_invoice env r s))
        = invoice_table env (now env (clock s)) r (members s) (invoices s)
    \<and> committed_members (snd (add_or_overwrite_invoice env r s)) =
        (if creates env r (members s) (invoices s) then members s else committed_members s)
    \<and> committed_invoices (snd (add_or_overwrite_invoice env r s)) =
        (if creates env r (members s) (invoices s)
         then invoice_table env (now env (clock s)) r (members s) (invoices s)
         else committed_invoices s)"
proof -
  from g member_gate_result [of r s] have gr: "gate_result r (members s) = Inr False" by simp
  from g member_gate_tables [of r s] have t0: "invoices s0 = invoices s" "members s0 = members s"
    "committed_invoices s0 = committed_invoices s" "committed_members s0 = committed_members s"
    "clock s0 = clock s" by simp_all
  from gr obtain cid where cid: "r ''CoworkerId'' = Some cid"
    by (auto simp: gate_result_def split: option.splits)
  show ?thesis
  proof (cases "r ''Id''")
    case None
    with g gr t0 show ?thesis
      by (simp add: add_or_overwrite_invoice_def invoice_outcome_def invoice_table_def creates_def)
  next
    case (Some k)
    show ?thesis
    proof (cases "filter (\<lambda>i. nexudus_invoice_id i = k) (invoices s)" rule: one_or_none.cases)
      case (2 i)
      with g gr t0 Some show ?thesis
        by (simp add: add_or_overwrite_invoice_def invoice_outcome_def invoice_table_def
            creates_def)
    next
      case 1
      with g gr t0 Some cid show ?thesis
        by (simp add: add_or_overwrite_invoice_def invoice_outcome_def invoice_table_def
            creates_def created_invoice_def commit_def Let_def filter_neq_invoice
            split: option.splits sum.splits)
    next
      case (3 x y zs)
      with g gr t0 Some cid show ?thesis
        by (simp add: add_or_overwrite_invoice_def invoice_outcome_def invoice_table_def
            creates_def created_invoice_def commit_def Let_def
            split: option.splits sum.splits)
    qed
  qed
qed

lemma invoice_step:
  "fst (add_or_overwrite_invoice env r s) = invoice_outcome env r (members s) (invoices s)"
  "members (snd (add_or_overwrite_invoice env r s)) = members s"
  "invoices (snd (add_or_overwrite_invoice env r s))
     = invoice_table env (now env (clock s)) r (members s) (invoices s)"
  "committed_members (snd (add_or_overwrite_invoice env r s)) =
     (if creates env r (members s) (invoices s) then members s else committed_members s)"
  "committed_invoices (snd (add_or_overwrite_invoice env r s)) =
     (if creates env r (members s) (invoices s)
      then invoice_table env (now env (clock s)) r (members s) (invoices s)
      else committed_invoices s)"
proof -
  obtain res s0 where g: "member_gate r s = (res, s0)" by (cases "member_gate r s")
  from g member_gate_result [of r s] have gr: "gate_result r (members s) = res" by simp
  from g member_gate_tables [of r s] have t0: "invoices s0 = invoices s" "members s0 = members s"
    "committed_invoices s0 = committed_invoices s" "committed_members s0 = committed_members s"
    by simp_all
  have "fst (add_or_overwrite_invoice env r s) = invoice_outcome env r (members s) (invoices s)
    \<and> members (snd (add_or_overwrite_invoice env r s)) = members s
    \<and> invoices (snd (add_or_overwrite_invoice env r s))
        = invoice_table env (now env (clock s)) r (members s) (invoices s)
    \<and> committed_members (snd (add_or_overwrite_invoice env r s)) =
        (if creates env r (members s) (invoices s) then members s else committed_members s)
    \<and> committed_invoices (snd (add_or_overwrite_invoice env r s)) =
        (if creates env r (members s) (invoices s)
         then invoice_table env (now env (clock s)) r (members s) (invoices s)
         else committed_invoices s)"
  proof (cases res)
    case (Inl e)
    with g gr t0 show ?thesis
      by (simp add: add_or_overwrite_invoice_def invoice_outcome_def invoice_table_def creates_def)
  next
    case (Inr b)
    show ?thesis
    proof (cases b)
      case True
      with Inr g gr t0 show ?thesis
        by (simp add: add_or_overwrite_invoice_def invoice_outcome_def invoice_table_def
            creates_def)
    next
      case False
      with Inr g show ?thesis by (intro invoice_step_ungated) simp
    qed
  qed
  then show
    "fst (add_or_overwrite_invoice env r s) = invoice_outcome env r (members s) (invoices s)"
    "members (snd (add_or_overwrite_invoice env r s)) = members s"
    "invoices (snd (add_or_overwrite_invoice env r s))
       = invoice_table env (now env (clock s)) r (members s) (invoices s)"
    "committed_members (snd (add_or_overwrite_invoice env r s)) =
       (if creates env r (members s) (invoices s) then members s else committed_members s)"
    "committed_invoices (snd (add_or_overwrite_invoice env r s)) =
       (if creates env r (members s) (invoices s)
        then invoice_table env (now env (clock s)) r (members s) (invoices s)
        else committed_invoices s)"
    by simp_all
qed

lemma created_invoice_time:
  "(created_invoice env t r = None) = (created_invoice env t' r = None)"
  by (simp add: created_invoice_def split: option.splits sum.splits)

lemma invoice_table_no_create:
  "\<not> creates env r ms is \<Longrightarrow> invoice_table env t r ms is = invoice_table env t' r ms is"
  using created_invoice_time [of env t r 0] created_invoice_time [of env t' r 0]
  by (auto simp: creates_def invoice_table_def split: option.splits)

lemma creates_Returned:
  "creates env r ms is \<Longrightarrow> invoice_outcome env r ms is = Returned"
  by (auto simp: creates_def invoice_outcome_def created_invoice_def
      split: option.splits sum.splits)

lemma invoice_step_tables:
  "view (snd (add_or_overwrite_invoice env r s)) =
     (members s, invoice_table env (now env (clock s)) r (members s) (invoices s))"
  "durable (snd (add_or_overwrite_invoice env r s)) =
     (if creates env r (members s) (invoices s)
      then (members s, invoice_table env (now env (clock s)) r (members s) (invoices s))
      else durable s)"
  by (simp_all add: view_def durable_def invoice_step)

lemma created_invoice_id:
  "created_invoice env t r = Some i \<Longrightarrow> r ''Id'' = Some (nexudus_invoice_id i)"
  by (auto simp: created_invoice_def split: option.splits sum.splits)

lemma gate_result_CoworkerId:
  "gate_result r ms = Inr b \<Longrightarrow> r ''CoworkerId'' \<noteq> None"
  by (auto simp: gate_result_def split: option.splits)

text \<open>A settled record changes nothing and does not end the run.\<close>

lemma settled_invoice_noop:
  assumes "settled_invoice env r ms is"
  shows "invoice_table env t r ms is = is" and "\<not> creates env r ms is"
    and "\<not> aborts (invoice_outcome env r ms is)"
proof -
  have "invoice_table env t r ms is = is \<and> \<not> creates env r ms is
     \<and> \<not> aborts (invoice_outcome env r ms is)"
  proof (cases "gate_result r ms")
    case (Inl e)
    then have "\<exists>k. e = KeyError k" by (auto simp: gate_result_def split: option.splits sum.splits)
    with Inl show ?thesis
      by (auto simp: invoice_table_def creates_def invoice_outcome_def aborts_def)
  next
    case (Inr b)
    show ?thesis
    proof (cases b)
      case True
      with Inr show ?thesis
        by (simp add: invoice_table_def creates_def invoice_outcome_def aborts_def)
    next
      case False
      show ?thesis
      proof (cases "r ''Id''")
        case None
        with Inr False show ?thesis
          by (simp add: invoice_table_def creates_def invoice_outcome_def aborts_def)
      next
        case (Some k)
        with assms Inr False consider
          (one) "length (filter (\<lambda>i. nexudus_invoice_id i = k) is) = 1" |
          (none) "filter (\<lambda>i. nexudus_invoice_id i = k) is = []"
            "created_invoice env 0 r = None" "\<not> aborts (invoice_outcome env r ms is)"
          by (auto simp: settled_invoice_def)
        then show ?thesis
        proof cases
          case one
          with Inr False Some show ?thesis
            by (simp add: invoice_table_def creates_def invoice_outcome_def aborts_def)
        next
          case none
          from none(2) created_invoice_time [of env t r 0]
          have "created_invoice env t r = None" by simp
          with none Inr False Some show ?thesis
            by (simp add: invoice_table_def creates_def filter_neq_invoice)
        qed
      qed
    qed
  qed
  then show "invoice_table env t r ms is = is" and "\<not> creates env r ms is"
    and "\<not> aborts (invoice_outcome env r ms is)" by simp_all
qed

lemma filter_neq_and_eq:
  "filter (\<lambda>x. nexudus_invoice_id x \<noteq> k' \<and> nexudus_invoice_id x = k) is =
     (if k' = k then [] else filter (\<lambda>i. nexudus_invoice_id i = k) is)"
  by (induction "is") auto

text \<open>The rows of key \<open>k\<close> after a step of a record \<open>r\<close>.\<close>

lemma invoice_table_rows:
  "filter (\<lambda>i. nexudus_invoice_id i = k) (invoice_table env t r ms is) =
     (if gate_result r ms = Inr False \<and> r ''Id'' = Some k
         \<and> length (filter (\<lambda>i. nexudus_invoice_id i = k) is) \<noteq> 1
      then (case created_invoice env t r of None \<Rightarrow> [] | Some i \<Rightarrow> [i])
      else filter (\<lambda>i. nexudus_invoice_id i = k) is)"
proof (cases "gate_result r ms = Inr False")
  case False
  then show ?thesis by (simp add: invoice_table_def)
next
  case True
  show ?thesis
  proof (cases "r ''Id''")
    case None
    with True show ?thesis by (simp add: invoice_table_def)
  next
    case (Some k')
    show ?thesis
    proof (cases "length (filter (\<lambda>i. nexudus_invoice_id i = k') is) = 1")
      case one: True
      with True Some show ?thesis by (auto simp: invoice_table_def)
    next
      case many: False
      show ?thesis
      proof (cases "created_invoice env t r")
        case None
        with True Some many show ?thesis
          by (auto simp: invoice_table_def filter_neq_and_eq)
      next
        case (Some i)
        with created_invoice_id [OF Some] \<open>r ''Id'' = Some k'\<close> have "nexudus_invoice_id i = k'"
          by simp
        with True \<open>r ''Id'' = Some k'\<close> many Some show ?thesis
          by (auto simp: invoice_table_def filter_neq_and_eq)
      qed
    qed
  qed
qed

lemma settled_invoice_established:
  assumes "\<not> aborts (invoice_outcome env r ms is)"
  shows "settled_invoice env r ms (invoice_table env t r ms is)"
proof (cases "gate_result r ms = Inr False")
  case False
  then show ?thesis by (simp add: settled_invoice_def)
next
  case True
  show ?thesis
  proof (cases "r ''Id''")
    case None
    with True show ?thesis by (simp add: settled_invoice_def)
  next
    case (Some k)
    show ?thesis
    proof (cases "length (filter (\<lambda>i. nexudus_invoice_id i = k) is) = 1")
      case one: True
      with True Some show ?thesis by (simp add: settled_invoice_def invoice_table_rows)
    next
      case many: False
      show ?thesis
      proof (cases "created_invoice env t r")
        case (Some i)
        with True \<open>r ''Id'' = Some k\<close> many show ?thesis
          by (simp add: settled_invoice_def invoice_table_rows)
      next
        case None
        with created_invoice_time [of env t r 0] have c0: "created_invoice env 0 r = None"
          by simp
        from True \<open>r ''Id'' = Some k\<close> many None
        have rows: "filter (\<lambda>i. nexudus_invoice_id i = k) (invoice_table env t r ms is) = []"
          by (simp add: invoice_table_rows)
        with True \<open>r ''Id'' = Some k\<close> many
        have "invoice_outcome env r ms (invoice_table env t r ms is) = invoice_outcome env r ms is"
          by (simp add: invoice_outcome_def)
        with assms rows c0 True \<open>r ''Id'' = Some k\<close> show ?thesis
          by (simp add: settled_invoice_def)
      qed
    qed
  qed
qed

lemma settled_invoice_preserved:
  assumes "settled_invoice env r ms is"
  shows "settled_invoice env r ms (invoice_table env t r' ms is)"
proof (cases "gate_result r ms = Inr False")
  case False
  then show ?thesis by (simp add: settled_invoice_def)
next
  case True
  show ?thesis
  proof (cases "r ''Id''")
    case None
    with True show ?thesis by (simp add: settled_invoice_def)
  next
    case (Some k)
    with assms True consider
      (one) "length (filter (\<lambda>i. nexudus_invoice_id i = k) is) = 1" |
      (none) "filter (\<lambda>i. nexudus_invoice_id i = k) is = []"
        "created_invoice env 0 r = None" "\<not> aborts (invoice_outcome env r ms is)"
      by (auto simp: settled_invoice_def)
    then show ?thesis
    proof cases
      case one
      with True Some show ?thesis by (simp add: settled_invoice_def invoice_table_rows)
    next
      case none
      let ?is' = "invoice_table env t r' ms is"
      from none(1) have rows: "filter (\<lambda>i. nexudus_invoice_id i = k) ?is' = []
          \<or> length (filter (\<lambda>i. nexudus_invoice_id i = k) ?is') = 1"
        by (simp add: invoice_table_rows split: option.splits)
      then show ?thesis
      proof
        assume e: "filter (\<lambda>i. nexudus_invoice_id i = k) ?is' = []"
        with none(1) True Some
        have "invoice_outcome env r ms ?is' = invoice_outcome env r ms is"
          by (simp add: invoice_outcome_def)
        with e none True Some show ?thesis by (simp add: settled_invoice_def)
      next
        assume "length (filter (\<lambda>i. nexudus_invoice_id i = k) ?is') = 1"
        with True Some show ?thesis by (simp add: settled_invoice_def)
      qed
    qed
  qed
qed
lemma callback_Cons_continue:
  assumes "\<not> aborts (fst (cb r s))"
  shows "\<exists>s'. callback cb (r # rs) s = callback cb rs s' \<and> view s' = view (snd (cb r s))
           \<and> durable s' = durable (snd (cb r s))"
proof (cases "cb r s")
  case (Pair out s1)
  show ?thesis
  proof (cases out)
    case Returned
    with Pair show ?thesis by auto
  next
    case (Raised e)
    with Pair assms show ?thesis by (cases e) (auto simp: aborts_def)
  qed
qed

lemma callback_Cons_abort:
  assumes "aborts (fst (cb r s))"
  shows "callback cb (r # rs) s = cb r s"
proof (cases "cb r s")
  case (Pair out s1)
  show ?thesis
  proof (cases out)
    case Returned
    with Pair assms show ?thesis by (simp add: aborts_def)
  next
    case (Raised e)
    with Pair assms show ?thesis by (cases e) (simp_all add: aborts_def)
  qed
qed

lemma callback_invoice_members:
  "members (snd (callback (add_or_overwrite_invoice env) rs s)) = members s"
proof (induction rs arbitrary: s)
  case Nil
  show ?case by simp
next
  case (Cons r rs)
  let ?cb = "add_or_overwrite_invoice env"
  show ?case
  proof (cases "aborts (fst (?cb r s))")
    case True
    then show ?thesis by (simp add: callback_Cons_abort invoice_step(2) del: callback.simps)
  next
    case False
    from callback_Cons_continue [of ?cb r s rs, OF False] obtain s' where
      "callback ?cb (r # rs) s = callback ?cb rs s'" "view s' = view (snd (?cb r s))" by blast
    with Cons.IH [of s'] show ?thesis by (simp add: view_def invoice_step(2))
  qed
qed

lemma settled_invoice_run:
  assumes "settled_invoice env r (members s) (invoices s)"
  shows "settled_invoice env r (members s) (invoices (snd (callback (add_or_overwrite_invoice env) rs s)))"
  using assms
proof (induction rs arbitrary: s)
  case Nil
  then show ?case by simp
next
  case (Cons r' rs)
  let ?cb = "add_or_overwrite_invoice env"
  have step: "settled_invoice env r (members s) (invoices (snd (?cb r' s)))"
    using Cons.prems by (simp add: invoice_step(3) settled_invoice_preserved)
  show ?case
  proof (cases "aborts (fst (?cb r' s))")
    case True
    with step show ?thesis by (simp add: callback_Cons_abort del: callback.simps)
  next
    case False
    from callback_Cons_continue [of ?cb r' s rs, OF False] obtain s' where
      s': "callback ?cb (r' # rs) s = callback ?cb rs s'" "view s' = view (snd (?cb r' s))" by blast
    then have "members s' = members s" "invoices s' = invoices (snd (?cb r' s))"
      by (simp_all add: view_def invoice_step(2))
    with step Cons.IH [of s'] s'(1) show ?thesis by simp
  qed
qed

lemma settled_invoice_after:
  "callback (add_or_overwrite_invoice env) rs s = (Returned, s1) \<Longrightarrow>
   \<forall>r\<in>set rs. settled_invoice env r (members s1) (invoices s1)"
proof (induction rs arbitrary: s)
  case Nil
  show ?case by simp
next
  case (Cons r rs)
  let ?cb = "add_or_overwrite_invoice env"
  have na: "\<not> aborts (fst (?cb r s))"
  proof
    assume "aborts (fst (?cb r s))"
    with Cons.prems have "aborts Returned" by (simp add: callback_Cons_abort del: callback.simps)
    then show False by (simp add: aborts_def)
  qed
  from callback_Cons_continue [of ?cb r s rs, OF na] obtain s' where
    s': "callback ?cb (r # rs) s = callback ?cb rs s'" "view s' = view (snd (?cb r s))" by blast
  with Cons.prems have run: "callback ?cb rs s' = (Returned, s1)" by simp
  from s'(2) have tabs: "members s' = members s" "invoices s' = invoices (snd (?cb r s))"
    by (simp_all add: view_def invoice_step(2))
  from na have "settled_invoice env r (members s) (invoices (snd (?cb r s)))"
    by (simp add: invoice_step(1,3) settled_invoice_established)
  with tabs have "settled_invoice env r (members s') (invoices s')" by simp
  from settled_invoice_run [OF this, of rs] run callback_invoice_members [of env rs s']
  have "settled_invoice env r (members s1) (invoices s1)" by simp
  with Cons.IH [OF run] show ?case by simp
qed

lemma settled_invoices_again:
  "\<forall>r\<in>set rs. settled_invoice env r (members t) (invoices t) \<Longrightarrow>
   \<exists>t1. callback (add_or_overwrite_invoice env) rs t = (Returned, t1)
        \<and> view t1 = view t \<and> durable t1 = durable t"
proof (induction rs arbitrary: t)
  case Nil
  show ?case by simp
next
  case (Cons r rs)
  let ?cb = "add_or_overwrite_invoice env"
  from Cons.prems have st: "settled_invoice env r (members t) (invoices t)" by simp
  note n = settled_invoice_noop [OF st]
  from n(3) have na: "\<not> aborts (fst (?cb r t))" by (simp add: invoice_step(1))
  have same: "view (snd (?cb r t)) = view t" "durable (snd (?cb r t)) = durable t"
    unfolding invoice_step_tables by (simp_all add: n(1,2) view_def)
  from callback_Cons_continue [of ?cb r t rs, OF na] same obtain t' where
    t': "callback ?cb (r # rs) t = callback ?cb rs t'" "view t' = view t" "durable t' = durable t"
    by auto
  from t'(2) Cons.prems have "\<forall>r\<in>set rs. settled_invoice env r (members t') (invoices t')"
    by (simp add: view_def)
  from Cons.IH [OF this] t' show ?case by auto
qed

section \<open>Running a sync twice\<close>

lemma invoice_replay:
  assumes "view s0 = durable s0"
    and "callback (add_or_overwrite_invoice env) rs s0 = (o1, s1)"
    and "view t = durable s1" and "durable t = durable s1"
  shows "\<exists>t1. callback (add_or_overwrite_invoice env) rs t = (o1, t1)
           \<and> view t1 = view s1 \<and> durable t1 = durable s1"
proof (rule replay_generic [where commits = "\<lambda>r s. creates env r (members s) (invoices s)",
      OF _ _ _ assms])
  fix r and s t :: session
  let ?cb = "add_or_overwrite_invoice env"
  assume v: "view t = view s" and nc: "\<not> creates env r (members s) (invoices s)"
  from v have tabs: "members t = members s" "invoices t = invoices s" by (simp_all add: view_def)
  from nc tabs have eq: "invoice_table env (now env (clock t)) r (members t) (invoices t)
      = invoice_table env (now env (clock s)) r (members s) (invoices s)"
    using invoice_table_no_create [of env r "members s" "invoices s" "now env (clock t)"
        "now env (clock s)"] by simp
  show "fst (?cb r t) = fst (?cb r s) \<and> view (snd (?cb r t)) = view (snd (?cb r s)) \<and>
       durable (snd (?cb r t)) = durable t \<and> durable (snd (?cb r s)) = durable s"
    unfolding invoice_step_tables invoice_step(1) using nc tabs eq by simp
next
  fix r and s :: session
  let ?cb = "add_or_overwrite_invoice env"
  assume "creates env r (members s) (invoices s)"
  then show "fst (?cb r s) = Returned \<and> durable (snd (?cb r s)) = view (snd (?cb r s))"
    unfolding invoice_step_tables invoice_step(1) by (simp add: creates_Returned)
next
  fix rs r and s0 sa t :: session
  let ?cb = "add_or_overwrite_invoice env"
  assume run: "callback ?cb rs s0 = (Returned, sa)"
    and cr: "creates env r (members sa) (invoices sa)"
    and vt: "view t = view (snd (?cb r sa))"
    and dt: "durable t = view (snd (?cb r sa))"
  from cr have "fst (?cb r sa) = Returned" by (simp add: invoice_step(1) creates_Returned)
  then have "callback ?cb [r] sa = (Returned, snd (?cb r sa))"
    by (rule callback_single_Returned)
  with run have "callback ?cb (rs @ [r]) s0 = (Returned, snd (?cb r sa))"
    by (simp add: callback_snoc)
  from settled_invoice_after [OF this] vt
  have "\<forall>r'\<in>set (rs @ [r]). settled_invoice env r' (members t) (invoices t)"
    by (simp add: view_def)
  from settled_invoices_again [OF this] vt dt
  show "\<exists>t1. callback ?cb (rs @ [r]) t = (Returned, t1) \<and> view t1 = view (snd (?cb r sa)) \<and>
       durable t1 = view (snd (?cb r sa))" by auto
qed

text \<open>
  C2: when a Member sync or an Invoice sync ends (by returning or with an exception)
  and the same sync is run again on the store it left, against the same remote, the second
  run ends in the same way and leaves the committed Member and Invoice tables equal to
  those the first run left: no row is added, removed or changed.
\<close>

theorem sync_twice:
  "(sync_member_table env sm nexudus_space_id = Some (out, g, s1) \<longrightarrow>
      (\<exists>g2 s2. sync_member_table env s1 nexudus_space_id = Some (out, g2, s2)
         \<and> committed_members s2 = committed_members s1
         \<and> committed_invoices s2 = committed_invoices s1))
   \<and> (sync_invoice_table env sm nexudus_space_id = Some (out', g', s1') \<longrightarrow>
      (\<exists>g2 s2. sync_invoice_table env s1' nexudus_space_id = Some (out', g2, s2)
         \<and> committed_members s2 = committed_members s1'
         \<and> committed_invoices s2 = committed_invoices s1'))"
proof (intro conjI impI)
  assume "sync_member_table env sm nexudus_space_id = Some (out, g, s1)"
  then have "\<exists>g2 s2. sync_table env s1 nexudus_space_id (add_or_overwrite_member env)
        [''Coworker_Active'' \<mapsto> PStr ''true'', ''size'' \<mapsto> PInt 100]
        ''spaces/coworkers'' ''Coworker_InvoicingBusiness'' = Some (out, g2, s2)
      \<and> durable s2 = durable s1"
    unfolding sync_member_table_def by (rule sync_table_twice [rotated]) (rule member_replay)
  then show "\<exists>g2 s2. sync_member_table env s1 nexudus_space_id = Some (out, g2, s2)
         \<and> committed_members s2 = committed_members s1
         \<and> committed_invoices s2 = committed_invoices s1"
    by (simp add: sync_member_table_def durable_def)
next
  assume "sync_invoice_table env sm nexudus_space_id = Some (out', g', s1')"
  then have "\<exists>g2 s2. sync_table env s1' nexudus_space_id (add_or_overwrite_invoice env)
        [''CoworkerInvoice_Paid'' \<mapsto> PStr ''false'', ''size'' \<mapsto> PInt 100]
        ''billing/coworkerinvoices'' ''CoworkerInvoice_Business'' = Some (out', g2, s2)
      \<and> durable s2 = durable s1'"
    unfolding sync_invoice_table_def by (rule sync_table_twice [rotated]) (rule invoice_replay)
  then show "\<exists>g2 s2. sync_invoice_table env s1' nexudus_space_id = Some (out', g2, s2)
         \<and> committed_members s2 = committed_members s1'
         \<and> committed_invoices s2 = committed_invoices s1'"
    by (simp add: sync_invoice_table_def durable_def)
qed

end
